theory Spec2Isabelle
  imports Main "HOL-Library.Word"
begin

section \<open>Cards (types.ts)\<close>

datatype Suit = Hearts | Diamonds | Clubs | Spades

datatype Rank = R2 | R3 | R4 | R5 | R6 | R7 | R8 | R9 | R10 | RJ | RQ | RK | RA

record Card =
  rank :: Rank
  suit :: Suit

definition SUITS :: "Suit list" where
  "SUITS = [Hearts, Diamonds, Clubs, Spades]"

definition RANKS :: "Rank list" where
  "RANKS = [R2, R3, R4, R5, R6, R7, R8, R9, R10, RJ, RQ, RK, RA]"

fun RANK_VALUES :: "Rank \<Rightarrow> int" where
  "RANK_VALUES R2 = 2"
| "RANK_VALUES R3 = 3"
| "RANK_VALUES R4 = 4"
| "RANK_VALUES R5 = 5"
| "RANK_VALUES R6 = 6"
| "RANK_VALUES R7 = 7"
| "RANK_VALUES R8 = 8"
| "RANK_VALUES R9 = 9"
| "RANK_VALUES R10 = 10"
| "RANK_VALUES RJ = 11"
| "RANK_VALUES RQ = 12"
| "RANK_VALUES RK = 13"
| "RANK_VALUES RA = 14"

datatype HandRank =
  HighCard | OnePair | TwoPair | ThreeOfAKind | Straight | Flush
  | FullHouse | FourOfAKind | StraightFlush | RoyalFlush

text \<open>The numeric value of the TypeScript enum member.\<close>

fun handRankValue :: "HandRank \<Rightarrow> int" where
  "handRankValue HighCard = 0"
| "handRankValue OnePair = 1"
| "handRankValue TwoPair = 2"
| "handRankValue ThreeOfAKind = 3"
| "handRankValue Straight = 4"
| "handRankValue Flush = 5"
| "handRankValue FullHouse = 6"
| "handRankValue FourOfAKind = 7"
| "handRankValue StraightFlush = 8"
| "handRankValue RoyalFlush = 9"

fun HAND_RANK_NAMES :: "HandRank \<Rightarrow> string" where
  "HAND_RANK_NAMES HighCard = ''High Card''"
| "HAND_RANK_NAMES OnePair = ''One Pair''"
| "HAND_RANK_NAMES TwoPair = ''Two Pair''"
| "HAND_RANK_NAMES ThreeOfAKind = ''Three of a Kind''"
| "HAND_RANK_NAMES Straight = ''Straight''"
| "HAND_RANK_NAMES Flush = ''Flush''"
| "HAND_RANK_NAMES FullHouse = ''Full House''"
| "HAND_RANK_NAMES FourOfAKind = ''Four of a Kind''"
| "HAND_RANK_NAMES StraightFlush = ''Straight Flush''"
| "HAND_RANK_NAMES RoyalFlush = ''Royal Flush''"

text \<open>
  \<open>EvaluatedHand\<close>: the fields \<open>rank\<close>, \<open>values\<close>, \<open>cards\<close>, \<open>name\<close> of the source carry
  the prefix \<open>hand\<close> here, since record fields share one name space.
\<close>

record EvaluatedHand =
  handRank :: HandRank
  handValues :: "int list"
  handCards :: "Card list"
  handName :: string

text \<open>Exceptions the engine's code can throw.\<close>

datatype Error = DeckExhausted | NeedFiveCards | TypeError


section \<open>Deck (deck.ts)\<close>

definition createDeck :: "Card list" where
  "createDeck = concat (map (\<lambda>s. map (\<lambda>r. \<lparr>rank = r, suit = s\<rparr>) RANKS) SUITS)"

text \<open>
  One Fisher-Yates step picks the swap index \<open>j = randomValues[i] % (i + 1)\<close> from an
  unsigned 32-bit word.
\<close>

definition swapIndex :: "32 word \<Rightarrow> nat \<Rightarrow> nat" where
  "swapIndex v i = unat v mod (i + 1)"

text \<open>
  The loop \<open>for (let i = n - 1; i > 0; i--)\<close>. The list \<open>rv\<close> is the content of the
  \<open>Uint32Array(n)\<close> that \<open>crypto.getRandomValues\<close> filled: it has one word per card.
\<close>

fun shuffleLoop :: "32 word list \<Rightarrow> nat \<Rightarrow> 'a list \<Rightarrow> 'a list" where
  "shuffleLoop rv 0 deck = deck"
| "shuffleLoop rv (Suc k) deck =
     (let i = Suc k; j = swapIndex (rv ! i) i
      in shuffleLoop rv k (deck[i := deck ! j, j := deck ! i]))"

definition shuffleDeck :: "32 word list \<Rightarrow> 'a list \<Rightarrow> 'a list" where
  "shuffleDeck rv deck = shuffleLoop rv (length deck - 1) deck"

record HandDeck =
  cards :: "Card list"
  position :: nat

definition newHandDeck :: "32 word list \<Rightarrow> HandDeck" where
  "newHandDeck rv = \<lparr>cards = shuffleDeck rv createDeck, position = 0\<rparr>"

definition deal :: "HandDeck \<Rightarrow> Error + (Card \<times> HandDeck)" where
  "deal d =
     (if position d \<ge> length (cards d) then Inl DeckExhausted
      else Inr (cards d ! position d, d\<lparr>position := position d + 1\<rparr>))"

fun dealMultiple :: "nat \<Rightarrow> HandDeck \<Rightarrow> Error + (Card list \<times> HandDeck)" where
  "dealMultiple 0 d = Inr ([], d)"
| "dealMultiple (Suc k) d =
     (case deal d of
        Inl err \<Rightarrow> Inl err
      | Inr (c, d1) \<Rightarrow>
          (case dealMultiple k d1 of
             Inl err \<Rightarrow> Inl err
           | Inr (cs, d2) \<Rightarrow> Inr (c # cs, d2)))"

definition burn :: "HandDeck \<Rightarrow> Error + HandDeck" where
  "burn d = (case deal d of Inl err \<Rightarrow> Inl err | Inr (c, d1) \<Rightarrow> Inr d1)"

definition remaining :: "HandDeck \<Rightarrow> int" where
  "remaining d = int (length (cards d)) - int (position d)"


section \<open>Hand evaluator (hand-evaluator.ts)\<close>

text \<open>
  \<open>Array.prototype.sort\<close> with a comparator is stable; it is modelled as the stable
  insertion sort for the comparator \<open>cmp\<close> (negative: first argument goes first).
\<close>

fun insertBy :: "('a \<Rightarrow> 'a \<Rightarrow> int) \<Rightarrow> 'a \<Rightarrow> 'a list \<Rightarrow> 'a list" where
  "insertBy cmp x [] = [x]"
| "insertBy cmp x (y # ys) =
     (if cmp x y \<le> 0 then x # y # ys else y # insertBy cmp x ys)"

definition sortBy :: "('a \<Rightarrow> 'a \<Rightarrow> int) \<Rightarrow> 'a list \<Rightarrow> 'a list" where
  "sortBy cmp xs = foldr (insertBy cmp) xs []"

fun checkStraight :: "int list \<Rightarrow> bool" where
  "checkStraight (a # b # rest) = (if a - b \<noteq> 1 then False else checkStraight (b # rest))"
| "checkStraight _ = True"

definition checkWheelStraight :: "int list \<Rightarrow> bool" where
  "checkWheelStraight vs = (length vs = 5 \<and> vs = [14, 5, 4, 3, 2])"

definition makeResult :: "HandRank \<Rightarrow> int list \<Rightarrow> Card list \<Rightarrow> EvaluatedHand" where
  "makeResult r vs cs =
     \<lparr>handRank = r, handValues = vs, handCards = cs, handName = HAND_RANK_NAMES r\<rparr>"

text \<open>
  The \<open>Map\<close> of rank counts, as an association list in insertion order
  (\<open>rankCounts.set(v, (rankCounts.get(v) || 0) + 1)\<close>).
\<close>

fun countSet :: "int \<Rightarrow> (int \<times> int) list \<Rightarrow> (int \<times> int) list" where
  "countSet v [] = [(v, 1)]"
| "countSet v ((k, c) # m) = (if k = v then (k, c + 1) # m else (k, c) # countSet v m)"

definition rankCounts :: "int list \<Rightarrow> (int \<times> int) list" where
  "rankCounts vs = foldl (\<lambda>m v. countSet v m) [] vs"

definition countsCmp :: "int \<times> int \<Rightarrow> int \<times> int \<Rightarrow> int" where
  "countsCmp a b = (if snd b \<noteq> snd a then snd b - snd a else fst b - fst a)"

text \<open>
  \<open>evaluateFiveCards\<close> is private and receives the five-element arrays of
  \<open>getCombinations(cards, 5)\<close> only; on any other length the model has no result.
  With five cards every index the source reads (\<open>values[0]\<close>, \<open>values[1]\<close>,
  \<open>counts[0]\<close>, \<open>counts[1]\<close>, \<open>counts[2]\<close>) is in range at the point where it is read.
\<close>

definition evaluateFiveCards :: "Card list \<Rightarrow> EvaluatedHand option" where
  "evaluateFiveCards cs =
     (if length cs \<noteq> 5 then None
      else
        let sorted = sortBy (\<lambda>a b. RANK_VALUES (rank b) - RANK_VALUES (rank a)) cs;
            vals = map (\<lambda>c. RANK_VALUES (rank c)) sorted;
            suits = map suit sorted;
            isFlush = list_all (\<lambda>s. s = suits ! 0) suits;
            isStraight = checkStraight vals;
            isWheelStraight = checkWheelStraight vals;
            counts = sortBy countsCmp (rankCounts vals)
        in Some (
          if isFlush \<and> isStraight then
            (if vals ! 0 = 14 \<and> vals ! 1 = 13 then makeResult RoyalFlush [14] sorted
             else makeResult StraightFlush [vals ! 0] sorted)
          else if isFlush \<and> isWheelStraight then makeResult StraightFlush [5] sorted
          else if snd (counts ! 0) = 4 then
            makeResult FourOfAKind [fst (counts ! 0), fst (counts ! 1)] sorted
          else if snd (counts ! 0) = 3 \<and> snd (counts ! 1) = 2 then
            makeResult FullHouse [fst (counts ! 0), fst (counts ! 1)] sorted
          else if isFlush then makeResult Flush vals sorted
          else if isStraight then makeResult Straight [vals ! 0] sorted
          else if isWheelStraight then makeResult Straight [5] sorted
          else if snd (counts ! 0) = 3 then
            makeResult ThreeOfAKind (fst (counts ! 0) # map fst (drop 1 counts)) sorted
          else if snd (counts ! 0) = 2 \<and> snd (counts ! 1) = 2 then
            makeResult TwoPair
              [max (fst (counts ! 0)) (fst (counts ! 1)),
               min (fst (counts ! 0)) (fst (counts ! 1)),
               fst (counts ! 2)] sorted
          else if snd (counts ! 0) = 2 then
            makeResult OnePair
              (fst (counts ! 0) # sortBy (\<lambda>a b. b - a) (map fst (drop 1 counts))) sorted
          else makeResult HighCard vals sorted))"

text \<open>The loop of \<open>compareHands\<close> over the common prefix of the two value vectors.\<close>

fun compareValues :: "int list \<Rightarrow> int list \<Rightarrow> int" where
  "compareValues (a # as) (b # bs) = (if a \<noteq> b then a - b else compareValues as bs)"
| "compareValues _ _ = 0"

definition compareHands :: "EvaluatedHand \<Rightarrow> EvaluatedHand \<Rightarrow> int" where
  "compareHands a b =
     (if handRank a \<noteq> handRank b then handRankValue (handRank a) - handRankValue (handRank b)
      else compareValues (handValues a) (handValues b))"

text \<open>
  \<open>getCombinations(arr, k)\<close>: the backtracking visits the subsequences of length \<open>k\<close>
  in lexicographic order of their index sets.
\<close>

fun getCombinations :: "'a list \<Rightarrow> nat \<Rightarrow> 'a list list" where
  "getCombinations xs 0 = [[]]"
| "getCombinations [] (Suc k) = []"
| "getCombinations (x # xs) (Suc k) =
     map ((#) x) (getCombinations xs k) @ getCombinations xs (Suc k)"

text \<open>The loop of \<open>evaluateBestHand\<close> that keeps the first strictly best combination.\<close>

fun bestOf :: "EvaluatedHand option \<Rightarrow> Card list list \<Rightarrow> EvaluatedHand option" where
  "bestOf best [] = best"
| "bestOf best (combo # combos) =
     (case evaluateFiveCards combo of
        None \<Rightarrow> None
      | Some evaluated \<Rightarrow>
          (case best of
             None \<Rightarrow> bestOf (Some evaluated) combos
           | Some b \<Rightarrow>
               if compareHands evaluated b > 0 then bestOf (Some evaluated) combos
               else bestOf best combos))"

definition evaluateBestHand :: "Card list \<Rightarrow> Error + EvaluatedHand" where
  "evaluateBestHand cs =
     (if length cs < 5 then Inl NeedFiveCards
      else case bestOf None (getCombinations cs 5) of
             None \<Rightarrow> Inl TypeError
           | Some h \<Rightarrow> Inr h)"


section \<open>Players and game state (types.ts)\<close>

text \<open>
  \<open>Unknown\<close> stands for any string outside the \<open>PlayerAction\<close> union: the host passes
  the action of a peer message on unchecked (\<open>action as any\<close>).
\<close>

datatype PlayerAction = Fold | Check | Call | Raise | AllIn | Unknown string

datatype BettingRound = Preflop | Flop | Turn | River

text \<open>The field \<open>id\<close> of the source is \<open>pid\<close> here (\<open>id\<close> is the identity function of HOL).\<close>

record Player =
  pid :: string
  name :: string
  seatIndex :: int
  chips :: int
  holeCards :: "Card list"
  currentBet :: int
  totalBetThisRound :: int
  hasFolded :: bool
  isAllIn :: bool
  isSittingOut :: bool
  lastAction :: "PlayerAction option"
  isConnected :: bool

record SidePot =
  amount :: int
  eligiblePlayerIds :: "string list"

record HandResult =
  hrPlayerId :: string
  hrAmount :: int
  hrHand :: "EvaluatedHand option"
  hrPotIndex :: nat

record ShowdownResult =
  srPlayerId :: string
  srCards :: "Card list"
  srHand :: "EvaluatedHand option"
  srWinAmount :: int

record PlayerPublicInfo =
  pubId :: string
  pubName :: string
  pubSeatIndex :: int
  pubChips :: int
  pubCurrentBet :: int
  pubHasFolded :: bool
  pubIsAllIn :: bool
  pubLastAction :: "PlayerAction option"

record ValidAction =
  action :: PlayerAction
  minAmount :: "int option"
  maxAmount :: "int option"

text \<open>
  \<open>GameState\<close>; its field \<open>currentBet\<close> is \<open>tableBet\<close> here, to keep it apart from the
  player's field of the same name.
\<close>

record GameState =
  roomCode :: string
  hostId :: string
  players :: "Player list"
  dealerSeatIndex :: int
  smallBlind :: int
  bigBlind :: int
  buyIn :: int
  handInProgress :: bool
  bettingRound :: BettingRound
  communityCards :: "Card list"
  pot :: int
  sidePots :: "SidePot list"
  tableBet :: int
  minRaise :: int
  lastRaiseAmount :: int
  activePlayerIndex :: int
  actionTimerDeadline :: "int option"
  winners :: "HandResult list option"
  handNumber :: int


section \<open>Game engine (game-engine.ts)\<close>

text \<open>
  The tagged events \<open>hand_start\<close>, \<open>hole_cards\<close>, \<open>community\<close>, \<open>action_on\<close>,
  \<open>player_acted\<close>, \<open>pot_update\<close>, \<open>showdown\<close> and \<open>hand_end\<close>, with their fields
  in the order of the source.
\<close>

datatype GameEvent =
    HandStart int int "PlayerPublicInfo list"
  | HoleCards string "Card list"
  | Community "Card list" BettingRound
  | ActionOn string "ValidAction list" int int int
  | PlayerActed string "PlayerAction option" int int int
  | PotUpdate int "SidePot list"
  | Showdown "ShowdownResult list"
  | HandEnd "PlayerPublicInfo list"

text \<open>
  The engine object. \<open>events\<close> is the log of the calls of \<open>onEvent\<close>, oldest first.
  \<open>actionTimer\<close> is the pending auto-fold timer, with the id of the player its callback
  captured. \<open>now\<close> is the reading of \<open>Date.now()\<close>, an input from the environment.
\<close>

record GameEngine =
  state :: GameState
  deck :: "HandDeck option"
  actionTimer :: "string option"
  events :: "GameEvent list"
  now :: int

definition ACTION_TIMEOUT :: int where
  "ACTION_TIMEOUT = 30000"

definition newGameEngine :: "string \<Rightarrow> string \<Rightarrow> GameEngine" where
  "newGameEngine room host =
     \<lparr>state = \<lparr>roomCode = room, hostId = host, players = [], dealerSeatIndex = -1,
        smallBlind = 1, bigBlind = 2, buyIn = 200, handInProgress = False,
        bettingRound = Preflop, communityCards = [], pot = 0, sidePots = [],
        tableBet = 0, minRaise = 2, lastRaiseAmount = 2, activePlayerIndex = -1,
        actionTimerDeadline = None, winners = None, handNumber = 0\<rparr>,
      deck = None, actionTimer = None, events = [], now = 0\<rparr>"

subsection \<open>JavaScript helpers\<close>

text \<open>\<open>xs[i]\<close>: \<open>undefined\<close> (here \<open>None\<close>) outside the array.\<close>

definition at :: "'a list \<Rightarrow> int \<Rightarrow> 'a option" where
  "at xs i = (if 0 \<le> i \<and> i < int (length xs) then Some (xs ! nat i) else None)"

text \<open>\<open>findIndex\<close>: the first position that satisfies the predicate, or \<open>-1\<close>.\<close>

fun findIndex :: "('a \<Rightarrow> bool) \<Rightarrow> 'a list \<Rightarrow> int" where
  "findIndex P [] = -1"
| "findIndex P (x # xs) =
     (if P x then 0 else (let r = findIndex P xs in if r < 0 then -1 else r + 1))"

text \<open>
  The remainder operator \<open>%\<close> has the sign of the dividend. The engine divides by the
  number of active players, and uses the result only when that number is positive.
\<close>

definition jsRem :: "int \<Rightarrow> int \<Rightarrow> int" where
  "jsRem a b = (if 0 \<le> a then a mod b else - ((- a) mod b))"

text \<open>\<open>[...new Set(xs)]\<close> keeps the first occurrence of every value.\<close>

fun uniq :: "'a list \<Rightarrow> 'a list \<Rightarrow> 'a list" where
  "uniq seen [] = []"
| "uniq seen (x # xs) = (if x \<in> set seen then uniq seen xs else x # uniq (seen @ [x]) xs)"

definition emit :: "GameEvent \<Rightarrow> GameEngine \<Rightarrow> GameEngine" where
  "emit ev e = e\<lparr>events := events e @ [ev]\<rparr>"

definition updPlayer :: "nat \<Rightarrow> (Player \<Rightarrow> Player) \<Rightarrow> GameState \<Rightarrow> GameState" where
  "updPlayer i f s = s\<lparr>players := (players s)[i := f (players s ! i)]\<rparr>"

subsection \<open>Helpers of the engine\<close>

text \<open>
  A reference to a player object is its index in \<open>state.players\<close>; the filtered arrays
  of the source are lists of such indices wherever the source mutates through them.
\<close>

definition indicesWhere :: "(Player \<Rightarrow> bool) \<Rightarrow> GameState \<Rightarrow> nat list" where
  "indicesWhere P s = filter (\<lambda>i. P (players s ! i)) [0..<length (players s)]"

definition getActivePlayers :: "GameState \<Rightarrow> nat list" where
  "getActivePlayers s =
     indicesWhere (\<lambda>p. \<not> isSittingOut p \<and> chips p \<ge> 0 \<and> isConnected p) s"

definition getPlayersWhoCanAct :: "GameState \<Rightarrow> Player list" where
  "getPlayersWhoCanAct s =
     filter (\<lambda>p. \<not> hasFolded p \<and> \<not> isAllIn p \<and> isConnected p) (players s)"

definition getActivePlayer :: "GameState \<Rightarrow> nat option" where
  "getActivePlayer s =
     (if activePlayerIndex s < 0 \<or> activePlayerIndex s \<ge> int (length (players s)) then None
      else Some (nat (activePlayerIndex s)))"

definition publicInfo :: "Player \<Rightarrow> PlayerPublicInfo" where
  "publicInfo p =
     \<lparr>pubId = pid p, pubName = name p, pubSeatIndex = seatIndex p, pubChips = chips p,
      pubCurrentBet = currentBet p, pubHasFolded = hasFolded p, pubIsAllIn = isAllIn p,
      pubLastAction = lastAction p\<rparr>"

definition getPublicPlayers :: "GameState \<Rightarrow> PlayerPublicInfo list" where
  "getPublicPlayers s = map publicInfo (players s)"

definition clearActionTimer :: "GameEngine \<Rightarrow> GameEngine" where
  "clearActionTimer e = e\<lparr>actionTimer := None\<rparr>"

subsection \<open>Player management\<close>

definition addPlayer :: "string \<Rightarrow> string \<Rightarrow> int \<Rightarrow> GameEngine \<Rightarrow> bool \<times> GameEngine" where
  "addPlayer i nm seat e =
     (let s = state e in
      if seat < 0 \<or> seat > 5 then (False, e)
      else if list_ex (\<lambda>p. seatIndex p = seat) (players s) then (False, e)
      else if list_ex (\<lambda>p. pid p = i) (players s) then (False, e)
      else if length (players s) \<ge> 6 then (False, e)
      else
        let p = \<lparr>pid = i, name = nm, seatIndex = seat, chips = buyIn s, holeCards = [],
                 currentBet = 0, totalBetThisRound = 0, hasFolded = False, isAllIn = False,
                 isSittingOut = False, lastAction = None, isConnected = True\<rparr>
        in (True, e\<lparr>state := s\<lparr>players :=
              sortBy (\<lambda>a b. seatIndex a - seatIndex b) (players s @ [p])\<rparr>\<rparr>))"

text \<open>\<open>players.find(p => p.id === id)\<close>, as the index of the player found.\<close>

definition findPlayer :: "string \<Rightarrow> GameState \<Rightarrow> nat option" where
  "findPlayer i s =
     (let k = findIndex (\<lambda>p. pid p = i) (players s) in if k < 0 then None else Some (nat k))"

definition setPlayerConnected :: "string \<Rightarrow> bool \<Rightarrow> GameEngine \<Rightarrow> GameEngine" where
  "setPlayerConnected i connected e =
     (case findPlayer i (state e) of
        None \<Rightarrow> e
      | Some k \<Rightarrow> e\<lparr>state := updPlayer k (\<lambda>p. p\<lparr>isConnected := connected\<rparr>) (state e)\<rparr>)"

subsection \<open>Hand flow: dealer, blinds, hole cards\<close>

definition canStartHand :: "GameState \<Rightarrow> bool" where
  "canStartHand s =
     (length (filter (\<lambda>p. isConnected p \<and> chips p > 0 \<and> \<not> isSittingOut p) (players s)) \<ge> 2
      \<and> \<not> handInProgress s)"

text \<open>
  \<open>activePlayers[0]\<close> and \<open>activePlayers[nextIdx]\<close> are read on a non-empty array with
  \<open>0 \<le> nextIdx < length\<close>, since \<open>currentIdx \<ge> -1\<close>.
\<close>

definition advanceDealer :: "GameState \<Rightarrow> GameState" where
  "advanceDealer s =
     (let ap = getActivePlayers s in
      if length ap = 0 then s
      else if dealerSeatIndex s = -1 then
        s\<lparr>dealerSeatIndex := seatIndex (players s ! (ap ! 0))\<rparr>
      else
        let currentIdx = findIndex (\<lambda>i. seatIndex (players s ! i) = dealerSeatIndex s) ap;
            nextIdx = jsRem (currentIdx + 1) (int (length ap))
        in s\<lparr>dealerSeatIndex := seatIndex (players s ! (ap ! nat nextIdx))\<rparr>)"

definition postBlind :: "nat \<Rightarrow> int \<Rightarrow> GameState \<Rightarrow> GameState" where
  "postBlind i amt s =
     (let p = players s ! i;
          actualAmount = min amt (chips p);
          p1 = p\<lparr>chips := chips p - actualAmount, currentBet := actualAmount,
                 totalBetThisRound := actualAmount\<rparr>;
          p2 = (if chips p1 = 0 then p1\<lparr>isAllIn := True\<rparr> else p1)
      in s\<lparr>players := (players s)[i := p2], pot := pot s + actualAmount\<rparr>)"

text \<open>
  \<open>postBlind\<close> on \<open>undefined\<close> (a seat index outside \<open>activePlayers\<close>, which needs a
  dealer seat that no active player holds) throws a TypeError.
\<close>

definition postBlinds :: "GameState \<Rightarrow> Error + GameState" where
  "postBlinds s =
     (let ap = getActivePlayers s in
      if length ap < 2 then Inr s
      else
        let dealerIdx = findIndex (\<lambda>i. seatIndex (players s ! i) = dealerSeatIndex s) ap;
            n = int (length ap);
            sbIdx = (if length ap = 2 then dealerIdx else jsRem (dealerIdx + 1) n);
            bbIdx = (if length ap = 2 then jsRem (dealerIdx + 1) n else jsRem (dealerIdx + 2) n)
        in case at ap sbIdx of
             None \<Rightarrow> Inl TypeError
           | Some sbPlayer \<Rightarrow>
               (case at ap bbIdx of
                  None \<Rightarrow> Inl TypeError
                | Some bbPlayer \<Rightarrow>
                    Inr ((postBlind bbPlayer (bigBlind s) (postBlind sbPlayer (smallBlind s) s))
                           \<lparr>tableBet := bigBlind s\<rparr>)))"

text \<open>The loop of \<open>dealHoleCards\<close> over the active players.\<close>

fun dealHoleLoop :: "nat list \<Rightarrow> GameEngine \<Rightarrow> Error + GameEngine" where
  "dealHoleLoop [] e = Inr e"
| "dealHoleLoop (i # rest) e =
     (if \<not> hasFolded (players (state e) ! i) then
        (case deck e of
           None \<Rightarrow> Inl TypeError
         | Some d \<Rightarrow>
             (case dealMultiple 2 d of
                Inl err \<Rightarrow> Inl err
              | Inr (cs, d1) \<Rightarrow>
                  dealHoleLoop rest
                    (emit (HoleCards (pid (players (state e) ! i)) cs)
                       (e\<lparr>state := updPlayer i (\<lambda>p. p\<lparr>holeCards := cs\<rparr>) (state e),
                          deck := Some d1\<rparr>))))
      else dealHoleLoop rest e)"

definition dealHoleCards :: "GameEngine \<Rightarrow> Error + GameEngine" where
  "dealHoleCards e = dealHoleLoop (getActivePlayers (state e)) e"


subsection \<open>Betting: valid actions and turn order\<close>

definition getValidActions :: "GameState \<Rightarrow> Player \<Rightarrow> ValidAction list" where
  "getValidActions s p =
     (let toCall = tableBet s - currentBet p;
          actions0 = [\<lparr>action = Fold, minAmount = None, maxAmount = None\<rparr>];
          actions1 =
            (if toCall \<le> 0 then
               actions0 @ [\<lparr>action = Check, minAmount = None, maxAmount = None\<rparr>]
             else if toCall \<ge> chips p then
               actions0 @ [\<lparr>action = Call, minAmount = Some (chips p), maxAmount = Some (chips p)\<rparr>]
             else
               actions0 @ [\<lparr>action = Call, minAmount = Some toCall, maxAmount = Some toCall\<rparr>])
      in if chips p > toCall then
           (let minRaiseTotal = tableBet s + minRaise s;
                minRaiseAmount = min (minRaiseTotal - currentBet p) (chips p);
                maxRaiseAmount = chips p
            in if minRaiseAmount \<le> maxRaiseAmount then
                 actions1 @ [\<lparr>action = Raise, minAmount = Some minRaiseAmount,
                              maxAmount = Some maxRaiseAmount\<rparr>]
               else actions1)
         else actions1)"

text \<open>
  The loop of \<open>findFirstActor\<close>. With two active players and a dealer seat that none of
  them holds, \<open>startIdx\<close> is \<open>-1\<close>, \<open>activePlayers[-1]\<close> is \<open>undefined\<close> and reading its
  \<open>hasFolded\<close> throws.
\<close>

fun firstActorLoop :: "GameState \<Rightarrow> nat list \<Rightarrow> int \<Rightarrow> nat list \<Rightarrow> Error + GameState" where
  "firstActorLoop s ap startIdx [] = Inr s"
| "firstActorLoop s ap startIdx (i # rest) =
     (case at ap (jsRem (startIdx + int i) (int (length ap))) of
        None \<Rightarrow> Inl TypeError
      | Some player \<Rightarrow>
          if \<not> hasFolded (players s ! player) \<and> \<not> isAllIn (players s ! player) then
            Inr (s\<lparr>activePlayerIndex := int player\<rparr>)
          else firstActorLoop s ap startIdx rest)"

definition findFirstActor :: "GameState \<Rightarrow> Error + GameState" where
  "findFirstActor s =
     (let ap = getActivePlayers s;
          dealerIdx = findIndex (\<lambda>i. seatIndex (players s ! i) = dealerSeatIndex s) ap;
          n = int (length ap);
          startIdx =
            (if bettingRound s = Preflop then
               (if length ap = 2 then dealerIdx else jsRem (dealerIdx + 3) n)
             else jsRem (dealerIdx + 1) n)
      in firstActorLoop s ap startIdx [0..<length ap])"

text \<open>
  The loop of \<open>findNextActor\<close>, for \<open>i = 1 .. activePlayers.length\<close>; the index
  \<open>(currentActiveIdx + i) % length\<close> is inside the array.
\<close>

fun nextActorLoop :: "GameState \<Rightarrow> nat list \<Rightarrow> int \<Rightarrow> nat list \<Rightarrow> nat option" where
  "nextActorLoop s ap currentActiveIdx [] = None"
| "nextActorLoop s ap currentActiveIdx (i # rest) =
     (let player = ap ! nat (jsRem (currentActiveIdx + int i) (int (length ap)));
          p = players s ! player
      in if hasFolded p \<or> isAllIn p then nextActorLoop s ap currentActiveIdx rest
         else if currentBet p < tableBet s then Some player
         else if bettingRound s = Preflop \<and> lastAction p = None then Some player
         else nextActorLoop s ap currentActiveIdx rest)"

definition findNextActor :: "GameState \<Rightarrow> nat option" where
  "findNextActor s =
     (let ap = getActivePlayers s in
      case getActivePlayer s of
        None \<Rightarrow> None
      | Some currentPlayer \<Rightarrow>
          let idx0 = findIndex (\<lambda>i. i = currentPlayer) ap;
              currentActiveIdx =
                (if idx0 < 0 then
                   (let k = findIndex
                              (\<lambda>i. seatIndex (players s ! i) \<ge> seatIndex (players s ! currentPlayer)) ap
                    in if k < 0 then 0 else k)
                 else idx0)
          in nextActorLoop s ap currentActiveIdx [1..<length ap + 1])"

subsection \<open>Side pots and showdown\<close>

text \<open>The loop of \<open>calculatePots\<close> over the all-in levels; the state of the loop is
  \<open>(pots, processedAmount, prevLevel)\<close>.\<close>

fun levelLoop ::
  "Player list \<Rightarrow> int list \<Rightarrow> SidePot list \<times> int \<times> int \<Rightarrow> SidePot list \<times> int \<times> int" where
  "levelLoop bettors [] acc = acc"
| "levelLoop bettors (level # rest) (pots, processedAmount, prevLevel) =
     (let potAmount =
            sum_list (map (\<lambda>p. let contribution = min (totalBetThisRound p) level - prevLevel
                                in if contribution > 0 then contribution else 0) bettors);
          eligible =
            map pid (filter (\<lambda>p. \<not> hasFolded p \<and> totalBetThisRound p \<ge> level) bettors)
      in levelLoop bettors rest
           (if potAmount > 0 then
              (pots @ [\<lparr>amount = potAmount, eligiblePlayerIds = eligible\<rparr>],
               processedAmount + potAmount, level)
            else (pots, processedAmount, level)))"

definition calculatePots :: "GameState \<Rightarrow> SidePot list" where
  "calculatePots s =
     (let activePlayers = filter (\<lambda>p. \<not> hasFolded p) (players s);
          allInPlayers =
            sortBy (\<lambda>a b. totalBetThisRound a - totalBetThisRound b)
              (filter isAllIn activePlayers)
      in if length allInPlayers = 0 then
           [\<lparr>amount = pot s, eligiblePlayerIds = map pid activePlayers\<rparr>]
         else
           let bettors = filter (\<lambda>p. totalBetThisRound p > 0) (players s);
               levels = sortBy (\<lambda>a b. a - b) (uniq [] (map totalBetThisRound allInPlayers));
               (pots, processedAmount, prevLevel) = levelLoop bettors levels ([], 0, 0);
               remainingPot = pot s - processedAmount;
               pots1 =
                 (if remainingPot > 0 then
                    pots @ [\<lparr>amount = remainingPot,
                             eligiblePlayerIds =
                               map pid (filter (\<lambda>p. totalBetThisRound p > prevLevel \<or> \<not> isAllIn p)
                                          activePlayers)\<rparr>]
                  else pots)
           in if length pots1 = 0 then
                pots1 @ [\<lparr>amount = pot s, eligiblePlayerIds = map pid activePlayers\<rparr>]
              else pots1)"

definition endHand :: "GameEngine \<Rightarrow> GameEngine" where
  "endHand e =
     (let e1 = clearActionTimer e;
          s = state e1;
          s1 = s\<lparr>handInProgress := False, activePlayerIndex := -1,
                 players := filter (\<lambda>p. isConnected p \<or> chips p > 0) (players s)\<rparr>
      in emit (HandEnd (getPublicPlayers s1)) (e1\<lparr>state := s1\<rparr>))"

definition endHandFold :: "nat option \<Rightarrow> GameEngine \<Rightarrow> GameEngine" where
  "endHandFold winner e =
     (case winner of
        None \<Rightarrow> endHand e
      | Some w \<Rightarrow>
          let s = state e;
              s1 = updPlayer w (\<lambda>p. p\<lparr>chips := chips p + pot s\<rparr>) s;
              s2 = s1\<lparr>winners := Some [\<lparr>hrPlayerId = pid (players s ! w), hrAmount = pot s,
                                          hrHand = None, hrPotIndex = 0\<rparr>]\<rparr>
          in endHand (emit (Showdown [\<lparr>srPlayerId = pid (players s ! w), srCards = [],
                                        srHand = None, srWinAmount = pot s\<rparr>])
                        (e\<lparr>state := s2\<rparr>)))"

text \<open>An evaluation \<open>{player, hand}\<close> is a pair of the player's index and the hand.\<close>

fun evaluateEligible :: "GameState \<Rightarrow> nat list \<Rightarrow> Error + (nat \<times> EvaluatedHand) list" where
  "evaluateEligible s [] = Inr []"
| "evaluateEligible s (i # rest) =
     (let allCards = holeCards (players s ! i) @ communityCards s in
      if length allCards \<ge> 5 then
        (case evaluateBestHand allCards of
           Inl err \<Rightarrow> Inl err
         | Inr hand \<Rightarrow>
             (case evaluateEligible s rest of
                Inl err \<Rightarrow> Inl err
              | Inr evaluations \<Rightarrow> Inr ((i, hand) # evaluations)))
      else evaluateEligible s rest)"

text \<open>
  The loop \<open>for (let i = 0; i < winners.length; i++)\<close> that pays one pot: it adds the
  win amount to the winner's chips and records a \<open>HandResult\<close>.
\<close>

fun payWinners ::
  "int \<Rightarrow> int \<Rightarrow> nat \<Rightarrow> nat \<Rightarrow> (nat \<times> EvaluatedHand) list
     \<Rightarrow> Player list \<times> HandResult list \<Rightarrow> Player list \<times> HandResult list" where
  "payWinners share remainder potIdx i [] acc = acc"
| "payWinners share remainder potIdx i ((w, hand) # rest) (ps, handResults) =
     (let winAmount = share + (if i = 0 then remainder else 0)
      in payWinners share remainder potIdx (i + 1) rest
           (ps[w := (ps ! w)\<lparr>chips := chips (ps ! w) + winAmount\<rparr>],
            handResults @ [\<lparr>hrPlayerId = pid (ps ! w), hrAmount = winAmount,
                             hrHand = Some hand, hrPotIndex = potIdx\<rparr>]))"

fun addResults ::
  "Player list \<Rightarrow> HandResult list \<Rightarrow> (nat \<times> EvaluatedHand) list
     \<Rightarrow> ShowdownResult list \<Rightarrow> ShowdownResult list" where
  "addResults ps handResults [] results = results"
| "addResults ps handResults ((i, hand) # rest) results =
     (if list_ex (\<lambda>r. srPlayerId r = pid (ps ! i)) results then
        addResults ps handResults rest results
      else
        addResults ps handResults rest
          (results @ [\<lparr>srPlayerId = pid (ps ! i), srCards = holeCards (ps ! i),
                       srHand = Some hand,
                       srWinAmount =
                         (case find (\<lambda>h. hrPlayerId h = pid (ps ! i)) handResults of
                            Some winResult \<Rightarrow> hrAmount winResult
                          | None \<Rightarrow> 0)\<rparr>]))"

text \<open>
  The loop of \<open>showdown\<close> over the pots. \<open>Math.floor(pot.amount / winners.length)\<close> is
  \<open>div\<close>; \<open>winners\<close> holds at least the best evaluation itself.
\<close>

fun potLoop ::
  "nat list \<Rightarrow> nat \<Rightarrow> SidePot list \<Rightarrow> GameState \<times> ShowdownResult list \<times> HandResult list
     \<Rightarrow> Error + (GameState \<times> ShowdownResult list \<times> HandResult list)" where
  "potLoop notFolded potIdx [] acc = Inr acc"
| "potLoop notFolded potIdx (p # rest) (s, results, handResults) =
     (let eligible = filter (\<lambda>i. pid (players s ! i) \<in> set (eligiblePlayerIds p)) notFolded in
      case evaluateEligible s eligible of
        Inl err \<Rightarrow> Inl err
      | Inr unsorted \<Rightarrow>
          if length unsorted = 0 then potLoop notFolded (potIdx + 1) rest (s, results, handResults)
          else
            let evaluations = sortBy (\<lambda>a b. compareHands (snd b) (snd a)) unsorted;
                bestHand = snd (evaluations ! 0);
                potWinners = filter (\<lambda>ev. compareHands (snd ev) bestHand = 0) evaluations;
                share = amount p div int (length potWinners);
                remainder = amount p - share * int (length potWinners);
                (ps, handResults1) =
                  payWinners share remainder potIdx 0 potWinners (players s, handResults);
                results1 = addResults ps handResults1 evaluations results
            in potLoop notFolded (potIdx + 1) rest (s\<lparr>players := ps\<rparr>, results1, handResults1))"

definition showdown :: "GameEngine \<Rightarrow> Error + GameEngine" where
  "showdown e =
     (let s = state e;
          notFolded = indicesWhere (\<lambda>p. \<not> hasFolded p) s;
          pots = calculatePots s
      in case potLoop notFolded 0 pots (s, [], []) of
           Inl err \<Rightarrow> Inl err
         | Inr (s1, results, handResults) \<Rightarrow>
             Inr (endHand (emit (Showdown results)
                             (e\<lparr>state := s1\<lparr>winners := Some handResults\<rparr>\<rparr>))))"


subsection \<open>Rounds\<close>

definition getNextBettingRound :: "GameState \<Rightarrow> BettingRound option" where
  "getNextBettingRound s =
     (case bettingRound s of
        Preflop \<Rightarrow> Some Flop
      | Flop \<Rightarrow> Some Turn
      | Turn \<Rightarrow> Some River
      | River \<Rightarrow> None)"

text \<open>
  \<open>dealCommunityCards\<close> burns one card and deals three (flop) or one (turn, river); a
  failing \<open>deal\<close> ends it with the exception.
\<close>

definition dealCommunityCards :: "BettingRound \<Rightarrow> GameEngine \<Rightarrow> Error + GameEngine" where
  "dealCommunityCards r e =
     (case deck e of
        None \<Rightarrow> Inr e
      | Some d \<Rightarrow>
          (case burn d of
             Inl err \<Rightarrow> Inl err
           | Inr d1 \<Rightarrow>
               (case (case r of Flop \<Rightarrow> Some 3 | Turn \<Rightarrow> Some 1 | River \<Rightarrow> Some 1
                               | Preflop \<Rightarrow> None) of
                  None \<Rightarrow> Inr (e\<lparr>deck := Some d1\<rparr>)
                | Some k \<Rightarrow>
                    (case dealMultiple k d1 of
                       Inl err \<Rightarrow> Inl err
                     | Inr (newCards, d2) \<Rightarrow>
                         let cc = communityCards (state e) @ newCards
                         in Inr (emit (Community cc r)
                                   (e\<lparr>state := (state e)\<lparr>communityCards := cc\<rparr>,
                                      deck := Some d2\<rparr>))))))"

text \<open>The reset at the start of a round after the preflop, with its \<open>pot_update\<close> event.\<close>

definition resetBets :: "GameEngine \<Rightarrow> GameEngine" where
  "resetBets e =
     (let s = state e;
          s1 = s\<lparr>players := map (\<lambda>p. p\<lparr>currentBet := 0, lastAction := None\<rparr>) (players s),
                 tableBet := 0, minRaise := bigBlind s, lastRaiseAmount := bigBlind s\<rparr>
      in emit (PotUpdate (pot s1) (sidePots s1)) (e\<lparr>state := s1\<rparr>))"

fun roundsLeft :: "BettingRound \<Rightarrow> nat" where
  "roundsLeft Preflop = 3"
| "roundsLeft Flop = 2"
| "roundsLeft Turn = 1"
| "roundsLeft River = 0"

lemma dealCommunityCards_bettingRound:
  "dealCommunityCards r e = Inr e' \<Longrightarrow> bettingRound (state e') = bettingRound (state e)"
  by (auto simp: dealCommunityCards_def emit_def Let_def
           split: option.splits sum.splits prod.splits)

lemma getNextBettingRound_roundsLeft:
  "getNextBettingRound s = Some r \<Longrightarrow> roundsLeft r < roundsLeft (bettingRound s)"
  by (auto simp: getNextBettingRound_def split: BettingRound.splits)

lemma firstActorLoop_bettingRound:
  "firstActorLoop s ap k is = Inr s' \<Longrightarrow> bettingRound s' = bettingRound s"
  by (induction "is") (auto split: option.splits if_splits)

lemma findFirstActor_bettingRound:
  "findFirstActor s = Inr s' \<Longrightarrow> bettingRound s' = bettingRound s"
  unfolding findFirstActor_def Let_def by (rule firstActorLoop_bettingRound)

lemma resetBets_bettingRound: "bettingRound (state (resetBets e)) = bettingRound (state e)"
  by (simp add: resetBets_def emit_def Let_def)

text \<open>
  \<open>advanceToNextRound\<close>, \<open>startBettingRound\<close> and \<open>promptAction\<close> call one another; every
  cycle through them moves the betting round forward.
\<close>

function advanceToNextRound :: "GameEngine \<Rightarrow> Error + GameEngine"
  and startBettingRound :: "GameEngine \<Rightarrow> Error + GameEngine"
  and promptAction :: "GameEngine \<Rightarrow> Error + GameEngine" where
  "advanceToNextRound e =
     (let notFolded = indicesWhere (\<lambda>p. \<not> hasFolded p) (state e) in
      if length notFolded \<le> 1 then Inr (endHandFold (at notFolded 0) e)
      else
        let canAct = filter (\<lambda>i. \<not> isAllIn (players (state e) ! i)) notFolded in
        case getNextBettingRound (state e) of
          None \<Rightarrow> showdown e
        | Some nextRound \<Rightarrow>
            (case dealCommunityCards nextRound
                    (e\<lparr>state := (state e)\<lparr>bettingRound := nextRound\<rparr>\<rparr>) of
               Inl err \<Rightarrow> Inl err
             | Inr e1 \<Rightarrow>
                 if length canAct \<le> 1 then advanceToNextRound e1 else startBettingRound e1))"
| "startBettingRound e =
     (let e1 = (if bettingRound (state e) \<noteq> Preflop then resetBets e else e);
          canAct = getPlayersWhoCanAct (state e1);
          notFolded = filter (\<lambda>p. \<not> hasFolded p) (players (state e1))
      in if length notFolded \<le> 1 \<or> length canAct = 0 then advanceToNextRound e1
         else
           (case findFirstActor (state e1) of
              Inl err \<Rightarrow> Inl err
            | Inr s2 \<Rightarrow> promptAction (e1\<lparr>state := s2\<rparr>)))"
| "promptAction e =
     (case getActivePlayer (state e) of
        None \<Rightarrow> advanceToNextRound e
      | Some i \<Rightarrow>
          let player = players (state e) ! i;
              validActions = getValidActions (state e) player;
              deadline = now e + ACTION_TIMEOUT;
              e1 = e\<lparr>state := (state e)\<lparr>actionTimerDeadline := Some deadline\<rparr>\<rparr>;
              e2 = emit (ActionOn (pid player) validActions (pot (state e1))
                           (tableBet (state e1)) deadline) e1
          in Inr ((clearActionTimer e2)\<lparr>actionTimer := Some (pid player)\<rparr>))"
  by pat_completeness auto
termination
proof (relation "measure (\<lambda>x. case x of
          Inl e \<Rightarrow> 3 * roundsLeft (bettingRound (state e))
        | Inr (Inl e) \<Rightarrow> 3 * roundsLeft (bettingRound (state e)) + 2
        | Inr (Inr e) \<Rightarrow> 3 * roundsLeft (bettingRound (state e)) + 1)", goal_cases)
  case 1
  show ?case by simp
next
  case (2 e notFolded canAct nextRound e1)
  then show ?case
    using dealCommunityCards_bettingRound [of nextRound _ e1]
          getNextBettingRound_roundsLeft [of "state e" nextRound]
    by auto
next
  case (3 e notFolded canAct nextRound e1)
  then show ?case
    using dealCommunityCards_bettingRound [of nextRound _ e1]
          getNextBettingRound_roundsLeft [of "state e" nextRound]
    by auto
next
  case (4 e e1 canAct notFolded)
  then show ?case by (auto simp: resetBets_bettingRound)
next
  case (5 e e1 canAct notFolded s2)
  then show ?case
    using findFirstActor_bettingRound [of "state e1" s2]
    by (auto simp: resetBets_bettingRound)
next
  case (6 e)
  show ?case by simp
qed

definition advanceAction :: "GameEngine \<Rightarrow> Error + GameEngine" where
  "advanceAction e =
     (case findNextActor (state e) of
        None \<Rightarrow> advanceToNextRound e
      | Some nextPlayer \<Rightarrow>
          promptAction (e\<lparr>state := (state e)\<lparr>activePlayerIndex := int nextPlayer\<rparr>\<rparr>))"


subsection \<open>Actions\<close>

text \<open>
  The branch \<open>case 'raise': case 'all-in':\<close>. \<open>amount\<close> is optional; \<open>amount && \<dots>\<close> is
  false and \<open>amount || 0\<close> is \<open>0\<close> when it is missing or \<open>0\<close>. \<open>None\<close> is the
  \<open>return false\<close> of the validation.
\<close>

definition raiseAmountOf :: "PlayerAction \<Rightarrow> int option \<Rightarrow> Player \<Rightarrow> int" where
  "raiseAmountOf act amt player =
     (if act = AllIn \<or> (case amt of None \<Rightarrow> False | Some a \<Rightarrow> a \<noteq> 0 \<and> a \<ge> chips player)
      then chips player
      else (case amt of None \<Rightarrow> 0 | Some a \<Rightarrow> a))"

definition raiseAction :: "nat \<Rightarrow> PlayerAction \<Rightarrow> int option \<Rightarrow> GameState \<Rightarrow> GameState option" where
  "raiseAction i act amt s =
     (let player = players s ! i;
          raiseAmount = raiseAmountOf act amt player;
          minRaiseTotal = tableBet s + minRaise s;
          minAllowedBet = minRaiseTotal - currentBet player
      in if raiseAmount < minAllowedBet \<and> raiseAmount < chips player then None
         else
           let newBet = currentBet player + raiseAmount;
               raiseOver = newBet - tableBet s;
               s1 = (if raiseOver > 0 \<and> raiseOver \<ge> minRaise s
                     then s\<lparr>lastRaiseAmount := raiseOver, minRaise := raiseOver\<rparr> else s);
               p1 = player\<lparr>chips := chips player - raiseAmount, currentBet := newBet,
                           totalBetThisRound := totalBetThisRound player + raiseAmount\<rparr>;
               s2 = s1\<lparr>pot := pot s1 + raiseAmount\<rparr>;
               s3 = (if newBet > tableBet s2 then s2\<lparr>tableBet := newBet\<rparr> else s2);
               p2 = (if chips p1 = 0 then p1\<lparr>isAllIn := True, lastAction := Some AllIn\<rparr>
                     else p1\<lparr>lastAction := Some Raise\<rparr>)
           in Some (s3\<lparr>players := (players s3)[i := p2]\<rparr>))"

text \<open>The \<open>switch (action)\<close> of \<open>handleAction\<close>; \<open>None\<close> is its \<open>return false\<close>.\<close>

definition applyAction :: "nat \<Rightarrow> PlayerAction \<Rightarrow> int option \<Rightarrow> GameState \<Rightarrow> GameState option" where
  "applyAction i act amt s =
     (let player = players s ! i;
          toCall = tableBet s - currentBet player
      in case act of
           Fold \<Rightarrow> Some (updPlayer i (\<lambda>p. p\<lparr>hasFolded := True, lastAction := Some Fold\<rparr>) s)
         | Check \<Rightarrow>
             if toCall > 0 then None
             else Some (updPlayer i (\<lambda>p. p\<lparr>lastAction := Some Check\<rparr>) s)
         | Call \<Rightarrow>
             let callAmount = min toCall (chips player);
                 p1 = player\<lparr>chips := chips player - callAmount,
                             currentBet := currentBet player + callAmount,
                             totalBetThisRound := totalBetThisRound player + callAmount,
                             lastAction := Some Call\<rparr>;
                 p2 = (if chips p1 = 0 then p1\<lparr>isAllIn := True\<rparr> else p1)
             in Some (s\<lparr>players := (players s)[i := p2], pot := pot s + callAmount\<rparr>)
         | Raise \<Rightarrow> raiseAction i act amt s
         | AllIn \<Rightarrow> raiseAction i act amt s
         | Unknown other \<Rightarrow> None)"

text \<open>\<open>handleAction\<close> returns its boolean result together with the engine.\<close>

definition handleAction ::
  "string \<Rightarrow> PlayerAction \<Rightarrow> int option \<Rightarrow> GameEngine \<Rightarrow> Error + (bool \<times> GameEngine)" where
  "handleAction playerId act amt e =
     (case findPlayer playerId (state e) of
        None \<Rightarrow> Inr (False, e)
      | Some i \<Rightarrow>
          (case getActivePlayer (state e) of
             None \<Rightarrow> Inr (False, e)
           | Some a \<Rightarrow>
               if pid (players (state e) ! a) \<noteq> playerId then Inr (False, e)
               else
                 let e0 = clearActionTimer e in
                 (case applyAction i act amt (state e0) of
                    None \<Rightarrow> Inr (False, e0)
                  | Some s1 \<Rightarrow>
                      let player = players s1 ! i;
                          e1 = emit (PlayerActed (pid player) (lastAction player)
                                       (currentBet player) (pot s1) (chips player))
                                 (e0\<lparr>state := s1\<rparr>);
                          notFolded = indicesWhere (\<lambda>p. \<not> hasFolded p) s1
                      in if length notFolded \<le> 1 then
                           Inr (True, endHandFold (at notFolded 0) e1)
                         else
                           (case advanceAction e1 of
                              Inl err \<Rightarrow> Inl err
                            | Inr e2 \<Rightarrow> Inr (True, e2)))))"

subsection \<open>Starting a hand\<close>

text \<open>
  \<open>startHand\<close>; \<open>rv\<close> is the randomness that \<open>new HandDeck()\<close> draws for its shuffle.
\<close>

definition startHand :: "32 word list \<Rightarrow> GameEngine \<Rightarrow> Error + GameEngine" where
  "startHand rv e =
     (if \<not> canStartHand (state e) then Inr e
      else
        let s = state e;
            s1 = s\<lparr>players := filter (\<lambda>p. chips p > 0 \<and> isConnected p) (players s),
                   handInProgress := True, handNumber := handNumber s + 1,
                   communityCards := [], pot := 0, sidePots := [], tableBet := 0,
                   minRaise := bigBlind s, lastRaiseAmount := bigBlind s, winners := None,
                   bettingRound := Preflop\<rparr>;
            s2 = s1\<lparr>players :=
                      map (\<lambda>p. p\<lparr>holeCards := [], currentBet := 0, totalBetThisRound := 0,
                                  hasFolded := (\<not> isConnected p \<or> chips p = 0 \<or> isSittingOut p),
                                  isAllIn := False, lastAction := None\<rparr>) (players s1)\<rparr>;
            s3 = advanceDealer s2
        in case postBlinds s3 of
             Inl err \<Rightarrow> Inl err
           | Inr s4 \<Rightarrow>
               let e1 = emit (HandStart (dealerSeatIndex s4) (handNumber s4) (getPublicPlayers s4))
                          (e\<lparr>state := s4, deck := Some (newHandDeck rv)\<rparr>)
               in (case dealHoleCards e1 of
                     Inl err \<Rightarrow> Inl err
                   | Inr e2 \<Rightarrow>
                       startBettingRound (e2\<lparr>state := (state e2)\<lparr>bettingRound := Preflop\<rparr>\<rparr>)))"

subsection \<open>Leaving players and the action timer\<close>

definition isOnAction :: "string \<Rightarrow> GameState \<Rightarrow> bool" where
  "isOnAction i s =
     (case getActivePlayer s of None \<Rightarrow> False | Some a \<Rightarrow> pid (players s ! a) = i)"

definition removePlayer :: "string \<Rightarrow> GameEngine \<Rightarrow> Error + GameEngine" where
  "removePlayer i e =
     (case findPlayer i (state e) of
        None \<Rightarrow> Inr e
      | Some idx \<Rightarrow>
          if handInProgress (state e) then
            (let e1 = e\<lparr>state := updPlayer idx (\<lambda>p. p\<lparr>hasFolded := True, isConnected := False\<rparr>)
                                   (state e)\<rparr>
             in if isOnAction i (state e1) then
                  (case handleAction i Fold None e1 of
                     Inl err \<Rightarrow> Inl err
                   | Inr (accepted, e2) \<Rightarrow> Inr e2)
                else Inr e1)
          else
            Inr (e\<lparr>state := (state e)\<lparr>players :=
                   take idx (players (state e)) @ drop (idx + 1) (players (state e))\<rparr>\<rparr>))"

text \<open>
  The callback of the auto-fold timer. A timer fires once: the model drops the handle
  when it fires (the source keeps the stale handle until the next \<open>clearActionTimer\<close>,
  which is the only place that reads it).
\<close>

definition actionTimeout :: "GameEngine \<Rightarrow> Error + GameEngine" where
  "actionTimeout e =
     (case actionTimer e of
        None \<Rightarrow> Inr e
      | Some playerId \<Rightarrow>
          let e1 = e\<lparr>actionTimer := None\<rparr> in
          if handInProgress (state e1) \<and> isOnAction playerId (state e1) then
            (case handleAction playerId Fold None e1 of
               Inl err \<Rightarrow> Inl err
             | Inr (accepted, e2) \<Rightarrow> Inr e2)
          else Inr e1)"

subsection \<open>Runs of the engine\<close>

text \<open>
  The operations the host invokes on an engine, and a run of them from left to right.
  An exception ends the run.
\<close>

datatype Command =
    AddPlayer string string int
  | RemovePlayer string
  | SetPlayerConnected string bool
  | StartHand "32 word list"
  | HandleAction string PlayerAction "int option"
  | ActionTimeout

fun step :: "Command \<Rightarrow> GameEngine \<Rightarrow> Error + GameEngine" where
  "step (AddPlayer i nm seat) e = Inr (snd (addPlayer i nm seat e))"
| "step (RemovePlayer i) e = removePlayer i e"
| "step (SetPlayerConnected i c) e = Inr (setPlayerConnected i c e)"
| "step (StartHand rv) e = startHand rv e"
| "step (HandleAction i act amt) e =
     (case handleAction i act amt e of Inl err \<Rightarrow> Inl err | Inr (accepted, e1) \<Rightarrow> Inr e1)"
| "step ActionTimeout e = actionTimeout e"

fun run :: "Command list \<Rightarrow> GameEngine \<Rightarrow> Error + GameEngine" where
  "run [] e = Inr e"
| "run (c # cs) e = (case step c e of Inl err \<Rightarrow> Inl err | Inr e1 \<Rightarrow> run cs e1)"

definition totalChips :: "GameState \<Rightarrow> int" where
  "totalChips s = sum_list (map chips (players s))"


section \<open>Example tables\<close>

definition mkPlayer :: "string \<Rightarrow> int \<Rightarrow> int \<Rightarrow> Player" where
  "mkPlayer i seat c =
     \<lparr>pid = i, name = i, seatIndex = seat, chips = c, holeCards = [],
      currentBet = 0, totalBetThisRound = 0, hasFolded = False, isAllIn = False,
      isSittingOut = False, lastAction = None, isConnected = True\<rparr>"

text \<open>A fresh engine between hands, with the given players seated.\<close>

definition table :: "Player list \<Rightarrow> GameEngine" where
  "table ps =
     (newGameEngine ''room'' ''A'')
       \<lparr>state := (state (newGameEngine ''room'' ''A''))\<lparr>players := ps\<rparr>\<rparr>"

text \<open>
  A hand in its preflop round: A, B and C with the blinds 1 and 2 posted by B and C, and
  A to act.
\<close>

definition preflopTable :: GameEngine where
  "preflopTable =
     (table [])
       \<lparr>state := (state (table
            [mkPlayer ''A'' 0 100,
             (mkPlayer ''B'' 1 99)\<lparr>currentBet := 1, totalBetThisRound := 1\<rparr>,
             (mkPlayer ''C'' 2 98)\<lparr>currentBet := 2, totalBetThisRound := 2\<rparr>]))
           \<lparr>handInProgress := True, dealerSeatIndex := 0, pot := 3, tableBet := 2,
            activePlayerIndex := 0, handNumber := 1\<rparr>,
         actionTimer := Some ''A''\<rparr>"

text \<open>
  A table at showdown: A all-in for 10, B all-in for 50, C in for 50 with chips
  behind, D folded after posting 2.
\<close>

definition sidePotState :: GameState where
  "sidePotState =
     (state (table
        [(mkPlayer ''A'' 0 0)\<lparr>totalBetThisRound := 10, isAllIn := True\<rparr>,
         (mkPlayer ''B'' 1 0)\<lparr>totalBetThisRound := 50, isAllIn := True\<rparr>,
         (mkPlayer ''C'' 2 150)\<lparr>totalBetThisRound := 50\<rparr>,
         (mkPlayer ''D'' 3 198)\<lparr>totalBetThisRound := 2, hasFolded := True\<rparr>]))
       \<lparr>handInProgress := True, bettingRound := River, pot := 112\<rparr>"

text \<open>Scenario S3: hero, villain and the board.\<close>

definition heroCards :: "Card list" where
  "heroCards = [\<lparr>rank = RA, suit = Spades\<rparr>, \<lparr>rank = R2, suit = Spades\<rparr>]"

definition villainCards :: "Card list" where
  "villainCards = [\<lparr>rank = RK, suit = Spades\<rparr>, \<lparr>rank = RK, suit = Diamonds\<rparr>]"

definition boardS3 :: "Card list" where
  "boardS3 =
     [\<lparr>rank = R3, suit = Diamonds\<rparr>, \<lparr>rank = R4, suit = Hearts\<rparr>,
      \<lparr>rank = R5, suit = Clubs\<rparr>, \<lparr>rank = R9, suit = Clubs\<rparr>, \<lparr>rank = RJ, suit = Hearts\<rparr>]"

definition wheelHand :: "Card list" where
  "wheelHand =
     [\<lparr>rank = R3, suit = Diamonds\<rparr>, \<lparr>rank = RA, suit = Spades\<rparr>,
      \<lparr>rank = R5, suit = Clubs\<rparr>, \<lparr>rank = R2, suit = Spades\<rparr>, \<lparr>rank = R4, suit = Hearts\<rparr>]"

text \<open>Three players take the seats 0, 1 and 2 of a new room, with 200 chips each.\<close>

definition seatThree :: "Command list" where
  "seatThree = [AddPlayer ''A'' ''A'' 0, AddPlayer ''B'' ''B'' 1, AddPlayer ''C'' ''C'' 2]"

text \<open>
  Two hands on that table. In the first (dealer A) A calls, B raises to 199, C calls, A
  moves all-in for 200 and both B and C fold, keeping one chip each. In the second
  (dealer B) C is all-in on the small blind, A posts the big blind of 2, B calls all-in
  with one chip, and A folds the big blind.
\<close>

definition firstHand :: "Command list" where
  "firstHand =
     [StartHand (replicate 52 0), HandleAction ''A'' Call None,
      HandleAction ''B'' Raise (Some 198), HandleAction ''C'' Call None,
      HandleAction ''A'' AllIn None, HandleAction ''B'' Fold None,
      HandleAction ''C'' Fold None]"

definition secondHand :: "Command list" where
  "secondHand =
     [StartHand (replicate 52 0), HandleAction ''B'' Call None, HandleAction ''A'' Fold None]"

text \<open>
  The engine after the three players have sat down and the first hand has started: A is
  the dealer and first to act, B and C have posted the blinds 1 and 2. And the engine
  after A's raise of 150 in that hand (a raise over the big blind of 148), with B on
  action holding 199 chips.
\<close>

definition openedHand :: GameEngine where
  "openedHand =
     (case run (seatThree @ [StartHand (replicate 52 0)]) (newGameEngine ''room'' ''A'') of
        Inl err \<Rightarrow> newGameEngine ''room'' ''A''
      | Inr e \<Rightarrow> e)"

definition raisedHand :: GameEngine where
  "raisedHand =
     (case run (seatThree @ [StartHand (replicate 52 0), HandleAction ''A'' Raise (Some 150)])
             (newGameEngine ''room'' ''A'') of
        Inl err \<Rightarrow> newGameEngine ''room'' ''A''
      | Inr e \<Rightarrow> e)"

text \<open>
  A hand on the table of \<open>seatThree\<close> that ends in a split pot of 41: A (the dealer,
  seat 0) raises to 20, B folds the small blind, C calls and checks the flop, turn and
  river. The shuffle words put a Broadway straight on the board, which both A and C
  play.
\<close>

definition splitDeck :: "32 word list" where
  "splitDeck =
     [0, 1, 2, 3, 3, 5, 5, 6, 3, 5, 5, 9, 5, 8, 1, 3, 4, 5, 6, 7, 8, 9, 11, 12, 15, 17,
      18, 19, 20, 21, 22, 23, 25, 26, 28, 29, 33, 34, 36, 37, 38, 39, 40, 41, 42, 43, 44,
      45, 46, 48, 49, 50]"

definition splitHand :: "Command list" where
  "splitHand =
     seatThree @
     [StartHand splitDeck, HandleAction ''A'' Raise (Some 20), HandleAction ''B'' Fold None,
      HandleAction ''C'' Call None, HandleAction ''C'' Check None,
      HandleAction ''C'' Check None, HandleAction ''C'' Check None]"

text \<open>The state of that hand on the river, before C's last check, and its single pot.\<close>

definition splitRiver :: GameState where
  "splitRiver =
     (case run (butlast splitHand) (newGameEngine ''room'' ''A'') of
        Inl err \<Rightarrow> state (newGameEngine ''room'' ''A'')
      | Inr e \<Rightarrow> state e)"

definition splitPot :: SidePot where
  "splitPot = \<lparr>amount = 41, eligiblePlayerIds = [''A'', ''C'']\<rparr>"

text \<open>
  The split policy in the words of the specification: the odd chips go to the tied
  winner whose seat is closest to the left of the dealer. Seats are counted from the
  dealer towards higher seat indices, wrapping after seat 5; the dealer's own seat is
  the farthest.
\<close>

definition seatsLeftOfDealer :: "int \<Rightarrow> int \<Rightarrow> int" where
  "seatsLeftOfDealer dealer seat = (if seat = dealer then 6 else (seat - dealer) mod 6)"

fun closestLeftOfDealer :: "int \<Rightarrow> Player list \<Rightarrow> Player option" where
  "closestLeftOfDealer dealer [] = None"
| "closestLeftOfDealer dealer (p # ps) =
     (case closestLeftOfDealer dealer ps of
        None \<Rightarrow> Some p
      | Some q \<Rightarrow>
          if seatsLeftOfDealer dealer (seatIndex p) \<le> seatsLeftOfDealer dealer (seatIndex q)
          then Some p else Some q)"

text \<open>
  A full table: six players sit down, a hand starts, the player under the gun moves
  all-in and everybody calls, so that the board is dealt out to the river.
\<close>

definition sixHanded :: "Command list" where
  "sixHanded =
     [AddPlayer ''P0'' ''P0'' 0, AddPlayer ''P1'' ''P1'' 1, AddPlayer ''P2'' ''P2'' 2,
      AddPlayer ''P3'' ''P3'' 3, AddPlayer ''P4'' ''P4'' 4, AddPlayer ''P5'' ''P5'' 5,
      StartHand (replicate 52 0),
      HandleAction ''P3'' AllIn None, HandleAction ''P4'' Call None,
      HandleAction ''P5'' Call None, HandleAction ''P0'' Call None,
      HandleAction ''P1'' Call None, HandleAction ''P2'' Call None]"


section \<open>Quantities used in the proofs\<close>

text \<open>What a player's total bet adds to the pot between the levels \<open>prev\<close> and \<open>level\<close>.\<close>

definition levelShare :: "int \<Rightarrow> int \<Rightarrow> Player \<Rightarrow> int" where
  "levelShare prev level p = max 0 (min (totalBetThisRound p) level - prev)"

text \<open>
  The cards drawn for the board, burns included, once a round has been reached, and the
  cards that \<open>dealCommunityCards\<close> draws for a round.
\<close>

fun drawnBy :: "BettingRound \<Rightarrow> nat" where
  "drawnBy Preflop = 0"
| "drawnBy Flop = 4"
| "drawnBy Turn = 6"
| "drawnBy River = 8"

fun roundDraw :: "BettingRound \<Rightarrow> nat" where
  "roundDraw Preflop = 1"
| "roundDraw Flop = 4"
| "roundDraw Turn = 2"
| "roundDraw River = 2"

text \<open>
  The invariant of the engine about its deck: at most six players, and a deck of 52
  cards from which at most twelve hole cards and the board cards of the rounds reached
  so far have been drawn.
\<close>

definition deckWithinBounds :: "GameEngine \<Rightarrow> bool" where
  "deckWithinBounds e =
     (length (players (state e)) \<le> 6
      \<and> (case deck e of
           None \<Rightarrow> True
         | Some d \<Rightarrow> length (cards d) = 52
                     \<and> position d \<le> 12 + drawnBy (bettingRound (state e))))"

text \<open>A call that throws nothing and leaves the engine within these bounds.\<close>

definition okResult :: "Error + GameEngine \<Rightarrow> bool" where
  "okResult r = (case r of Inl err \<Rightarrow> False | Inr e \<Rightarrow> deckWithinBounds e)"

text \<open>
  What the blinds and the hole cards leave as it is: the number of players, the dealer
  seat, every player's seat and flags, and that a stack is not negative.
\<close>

definition seatsKept :: "GameState \<Rightarrow> GameState \<Rightarrow> bool" where
  "seatsKept s s' =
     (length (players s') = length (players s)
      \<and> dealerSeatIndex s' = dealerSeatIndex s
      \<and> bettingRound s' = bettingRound s
      \<and> list_all (\<lambda>j. seatIndex (players s' ! j) = seatIndex (players s ! j)
                      \<and> isSittingOut (players s' ! j) = isSittingOut (players s ! j)
                      \<and> isConnected (players s' ! j) = isConnected (players s ! j)
                      \<and> (0 \<le> chips (players s ! j) \<longrightarrow> 0 \<le> chips (players s' ! j)))
           [0..<length (players s)])"

text \<open>The dealer button is on the seat of an active player.\<close>

definition dealerSeated :: "GameState \<Rightarrow> bool" where
  "dealerSeated s =
     list_ex (\<lambda>i. seatIndex (players s ! i) = dealerSeatIndex s) (getActivePlayers s)"

text \<open>
  A call has moved the hand to a later betting round; or it has left the round, the
  minimum raise and the last raise as they were.
\<close>

definition laterRound :: "GameState \<Rightarrow> GameState \<Rightarrow> bool" where
  "laterRound s s' = (roundsLeft (bettingRound s') < roundsLeft (bettingRound s))"

definition raiseKept :: "GameState \<Rightarrow> GameState \<Rightarrow> bool" where
  "raiseKept s s' =
     (bettingRound s' = bettingRound s \<and> minRaise s' = minRaise s
      \<and> lastRaiseAmount s' = lastRaiseAmount s)"



section \<open>Rejected commands\<close>

text \<open>
  C10. \<open>startHand\<close> is atomic on an unmet precondition: whenever \<open>canStartHand\<close> is
  false (fewer than two connected, chip-positive, non-sitting-out players, or a hand in
  progress), \<open>startHand\<close> returns the engine as it was: no player purged, no dealer
  advance, no blinds, no deck, no hand number increment, and no event.
\<close>

theorem startHand_without_precondition:
  "\<not> canStartHand (state e) \<Longrightarrow> startHand rv e = Inr e"
  by (simp add: startHand_def)

theorem startHand_without_precondition_witness:
  "\<not> canStartHand (state preflopTable)
   \<and> startHand (replicate 52 0) preflopTable = Inr preflopTable"
  using startHand_without_precondition [of preflopTable "replicate 52 0"]
  by (simp add: canStartHand_def preflopTable_def table_def newGameEngine_def)

text \<open>
  What a rejected action leaves behind. When the requestor is not the player on action
  the engine is returned as it was. When the player on action sends a check with a
  positive amount to call, a raise below the minimum that keeps chips behind, or an
  unknown action, the game state, the deck and the event log are as they were, but
  \<open>clearActionTimer\<close> has run before the validation.
\<close>

lemma rejected_action_result:
  assumes "\<not> isOnAction playerId (state e)
     \<or> (\<exists>i. findPlayer playerId (state e) = Some i \<and>
          (let p = players (state e) ! i;
               requested = (case amt of None \<Rightarrow> 0 | Some a \<Rightarrow> a)
           in (act = Check \<and> tableBet (state e) - currentBet p > 0)
            \<or> (act = Raise \<and> requested < chips p
                \<and> currentBet p + requested - tableBet (state e) < minRaise (state e))
            \<or> (\<exists>x. act = Unknown x)))"
  shows "handleAction playerId act amt e
         = Inr (False, if isOnAction playerId (state e) then clearActionTimer e else e)"
  using assms
  by (auto simp: handleAction_def isOnAction_def applyAction_def raiseAction_def
        raiseAmountOf_def clearActionTimer_def Let_def
      split: option.splits)

text \<open>
  C5. Rejected actions are not no-ops. In the first hand of a new table A is on action
  with 2 to call, and the auto-fold timer is armed for A: when it fires, A is folded. A
  check by A is rejected (\<open>handleAction\<close> returns false; game state and event log are
  unchanged), but it has cancelled the timer: the deadline is still recorded in the
  game state, A is still on action, and the timeout does nothing any more.
\<close>

theorem rejected_check_cancels_auto_fold:
  "isOnAction ''A'' (state openedHand)
   \<and> tableBet (state openedHand) - currentBet (players (state openedHand) ! 0) = 2
   \<and> actionTimer openedHand = Some ''A''
   \<and> map_sum id (\<lambda>e. map hasFolded (players (state e))) (actionTimeout openedHand)
       = Inr [True, False, False]
   \<and> (case handleAction ''A'' Check None openedHand of
        Inl err \<Rightarrow> False
      | Inr (accepted, e') \<Rightarrow>
          \<not> accepted \<and> state e' = state openedHand \<and> events e' = events openedHand
          \<and> isOnAction ''A'' (state e') \<and> actionTimerDeadline (state e') = Some 30000
          \<and> actionTimer e' = None \<and> actionTimeout e' = Inr e')"
  by code_simp


section \<open>The comparator sort\<close>

lemma insertBy_set: "set (insertBy cmp x ys) = insert x (set ys)"
  by (induction ys) auto

lemma sortBy_set: "set (sortBy cmp xs) = set xs"
  by (induction xs) (auto simp: sortBy_def insertBy_set)

lemma insertBy_length: "length (insertBy cmp x ys) = Suc (length ys)"
  by (induction ys) auto

lemma sortBy_length: "length (sortBy cmp xs) = length xs"
  by (induction xs) (auto simp: sortBy_def insertBy_length)

lemma insertBy_sorted:
  assumes tot: "\<And>a b. 0 < cmp a b \<Longrightarrow> cmp b a \<le> 0"
    and trans: "\<And>a b c. cmp a b \<le> 0 \<Longrightarrow> cmp b c \<le> 0 \<Longrightarrow> cmp a c \<le> 0"
  shows "sorted_wrt (\<lambda>a b. cmp a b \<le> 0) ys \<Longrightarrow> sorted_wrt (\<lambda>a b. cmp a b \<le> 0) (insertBy cmp x ys)"
proof (induction ys)
  case Nil
  then show ?case by simp
next
  case (Cons y ys)
  show ?case
  proof (cases "cmp x y \<le> 0")
    case True
    with Cons.prems show ?thesis by (auto intro: trans)
  next
    case False
    then have "cmp y x \<le> 0" using tot [of x y] by simp
    with False Cons show ?thesis by (auto simp: insertBy_set)
  qed
qed

lemma sortBy_sorted:
  assumes tot: "\<And>a b. 0 < cmp a b \<Longrightarrow> cmp b a \<le> 0"
    and trans: "\<And>a b c. cmp a b \<le> 0 \<Longrightarrow> cmp b c \<le> 0 \<Longrightarrow> cmp a c \<le> 0"
  shows "sorted_wrt (\<lambda>a b. cmp a b \<le> 0) (sortBy cmp xs)"
proof (induction xs)
  case Nil
  show ?case by (simp add: sortBy_def)
next
  case (Cons x xs)
  have "sortBy cmp (x # xs) = insertBy cmp x (sortBy cmp xs)" by (simp add: sortBy_def)
  with Cons show ?case using insertBy_sorted [of cmp, OF tot trans] by simp
qed

lemma sortBy_int_sorted: "sorted (sortBy (\<lambda>a b. a - b) (xs :: int list))"
proof -
  have "sorted_wrt (\<lambda>a b. a - b \<le> 0) (sortBy (\<lambda>a b. a - b) xs)"
    by (rule sortBy_sorted) auto
  then show ?thesis by (simp add: sorted_wrt_iff_nth_less sorted_iff_nth_mono_less)
qed

lemma uniq_set: "set (uniq seen xs) \<subseteq> set xs"
  by (induction xs arbitrary: seen) auto

lemma sum_list_positive_part:
  "\<forall>p \<in> set ps. (0::int) \<le> f p \<Longrightarrow> sum_list (map f (filter (\<lambda>p. 0 < f p) ps)) = sum_list (map f ps)"
  by (induction ps) (auto simp: order.order_iff_strict)

lemma levelShare_split:
  "prev \<le> l \<Longrightarrow> l \<le> m \<Longrightarrow> levelShare prev l p + levelShare l m p = levelShare prev m p"
  by (auto simp: levelShare_def)

lemma sorted_le_last: "sorted (l # rest) \<Longrightarrow> (l::int) \<le> last (l # rest)"
  by (induction rest) auto

lemma levelLoop_totals:
  assumes "sorted levels" "\<forall>l \<in> set levels. prev \<le> l"
    and "levelLoop bettors levels (pots, proc, prev) = (pots', proc', prev')"
  shows "proc' = proc + sum_list (map (levelShare prev (last (prev # levels))) bettors)
       \<and> sum_list (map amount pots') = sum_list (map amount pots) + (proc' - proc)
       \<and> prev' = last (prev # levels)"
  using assms
proof (induction levels arbitrary: pots proc prev)
  case Nil
  then show ?case by (simp add: levelShare_def)
next
  case (Cons l rest)
  define pa where "pa = sum_list (map (levelShare prev l) bettors)"
  have pa_alt: "sum_list (map (\<lambda>p. let contribution = min (totalBetThisRound p) l - prev
                                in if contribution > 0 then contribution else 0) bettors) = pa"
    unfolding pa_def by (rule arg_cong [where f = sum_list]) (auto simp: levelShare_def Let_def max_def)
  have pa_nonneg: "0 \<le> pa" unfolding pa_def by (rule sum_list_nonneg) (auto simp: levelShare_def)
  define pots1 where "pots1 = (if pa > 0 then pots @ [\<lparr>amount = pa, eligiblePlayerIds =
       map pid (filter (\<lambda>p. \<not> hasFolded p \<and> totalBetThisRound p \<ge> l) bettors)\<rparr>] else pots)"
  have step: "levelLoop bettors (l # rest) (pots, proc, prev) = levelLoop bettors rest (pots1, proc + pa, l)"
    unfolding levelLoop.simps pa_alt using pa_nonneg by (auto simp: pots1_def Let_def)
  have sum1: "sum_list (map amount pots1) = sum_list (map amount pots) + pa"
    using pa_nonneg by (auto simp: pots1_def)
  have srt: "sorted rest" "\<forall>x \<in> set rest. l \<le> x" using Cons.prems(1) by auto
  have res: "levelLoop bettors rest (pots1, proc + pa, l) = (pots', proc', prev')"
    using Cons.prems(3) step by simp
  note IH = Cons.IH [OF srt res]
  have le1: "prev \<le> l" using Cons.prems(2) by simp
  have le2: "l \<le> last (l # rest)" using Cons.prems(1) by (rule sorted_le_last)
  define m where "m = last (l # rest)"
  have "pa + sum_list (map (levelShare l m) bettors)
        = sum_list (map (\<lambda>p. levelShare prev l p + levelShare l m p) bettors)"
    unfolding pa_def by (simp add: sum_list_addf)
  also have "\<dots> = sum_list (map (levelShare prev m) bettors)"
    using le1 le2 by (simp add: levelShare_split m_def)
  finally have "pa + sum_list (map (levelShare l (last (l # rest))) bettors)
        = sum_list (map (levelShare prev (last (prev # l # rest))) bettors)"
    by (simp add: m_def)
  with IH sum1 show ?case by simp
qed


section \<open>Side pots\<close>

text \<open>
  C2. When the pot is the sum of the players' total bets (folded players included) and
  no total bet is negative, the amounts of the side pots built by \<open>calculatePots\<close> sum
  exactly to the pot.
\<close>

theorem side_pots_sum_to_pot:
  assumes nonneg: "\<forall>p \<in> set (players s). 0 \<le> totalBetThisRound p"
    and potsum: "pot s = sum_list (map totalBetThisRound (players s))"
  shows "sum_list (map amount (calculatePots s)) = pot s"
proof -
  define activePlayers where "activePlayers = filter (\<lambda>p. \<not> hasFolded p) (players s)"
  define allInPlayers where "allInPlayers = sortBy (\<lambda>a b. totalBetThisRound a - totalBetThisRound b)
              (filter isAllIn activePlayers)"
  define bettors where "bettors = filter (\<lambda>p. totalBetThisRound p > 0) (players s)"
  define levels where "levels = sortBy (\<lambda>a b. a - b) (uniq [] (map totalBetThisRound allInPlayers))"
  obtain pots proc prev where loop: "levelLoop bettors levels ([], 0, 0) = (pots, proc, prev)"
    by (cases "levelLoop bettors levels ([], 0, 0)") auto
  have "set levels \<subseteq> totalBetThisRound ` set (players s)"
    using uniq_set [of "[]" "map totalBetThisRound allInPlayers"]
    by (auto simp: levels_def sortBy_set allInPlayers_def activePlayers_def)
  then have lv: "\<forall>l \<in> set levels. 0 \<le> l" using nonneg by auto
  have srt: "sorted levels" unfolding levels_def by (rule sortBy_int_sorted)
  from levelLoop_totals [OF srt lv loop]
  have proc: "proc = sum_list (map (levelShare 0 (last (0 # levels))) bettors)"
    and sum: "sum_list (map amount pots) = proc" by auto
  have "sum_list (map (levelShare 0 (last (0 # levels))) bettors) \<le> sum_list (map totalBetThisRound bettors)"
    by (rule sum_list_mono) (auto simp: levelShare_def bettors_def)
  also have "sum_list (map totalBetThisRound bettors) = sum_list (map totalBetThisRound (players s))"
    unfolding bettors_def using nonneg by (intro sum_list_positive_part) auto
  finally have le: "proc \<le> pot s" using proc potsum by simp
  show ?thesis
    unfolding calculatePots_def Let_def
    using loop sum le
    by (auto simp: activePlayers_def [symmetric] allInPlayers_def [symmetric]
          bettors_def [symmetric] levels_def [symmetric])
qed

theorem side_pots_sum_to_pot_witness:
  "list_all (\<lambda>p. 0 \<le> totalBetThisRound p) (players sidePotState)
   \<and> pot sidePotState = sum_list (map totalBetThisRound (players sidePotState))
   \<and> map amount (calculatePots sidePotState) = [32, 80]
   \<and> sum_list (map amount (calculatePots sidePotState)) = 112"
proof -
  have 1: "\<forall>p \<in> set (players sidePotState). 0 \<le> totalBetThisRound p"
    by (simp add: sidePotState_def table_def newGameEngine_def mkPlayer_def)
  have 2: "pot sidePotState = sum_list (map totalBetThisRound (players sidePotState))"
    by (simp add: sidePotState_def table_def newGameEngine_def mkPlayer_def)
  have 3: "map amount (calculatePots sidePotState) = [32, 80]" by code_simp
  have 4: "pot sidePotState = 112" by (simp add: sidePotState_def)
  from side_pots_sum_to_pot [OF 1 2] 1 2 3 4 show ?thesis by (simp add: list_all_iff)
qed


section \<open>The wheel\<close>

lemma sortBy_key_desc:
  "sorted_wrt (\<lambda>a b. f b \<le> (f a :: int)) (sortBy (\<lambda>a b. f b - f a) xs)"
proof -
  have "sorted_wrt (\<lambda>a b. f b - f a \<le> 0) (sortBy (\<lambda>a b. f b - f a) xs)"
    by (rule sortBy_sorted) auto
  then show ?thesis by (simp add: sorted_wrt_iff_nth_less)
qed

lemma wheel_values:
  assumes len: "length cs = 5"
    and vals: "set (map (\<lambda>c. RANK_VALUES (rank c)) cs) = {14, 5, 4, 3, 2}"
  shows "map (\<lambda>c. RANK_VALUES (rank c)) (sortBy (\<lambda>a b. RANK_VALUES (rank b) - RANK_VALUES (rank a)) cs)
         = [14, 5, 4, 3, 2]"
proof -
  let ?f = "\<lambda>c. RANK_VALUES (rank c)"
  let ?vs = "map ?f (sortBy (\<lambda>a b. ?f b - ?f a) cs)"
  have set_vs: "set ?vs = {14, 5, 4, 3, 2}" using vals by (simp add: sortBy_set)
  have len_vs: "length ?vs = 5" using len by (simp add: sortBy_length)
  have "card (set ?vs) = length ?vs" unfolding set_vs len_vs by simp
  then have dist: "distinct ?vs" by (rule card_distinct)
  have "sorted_wrt (\<lambda>a b. b \<le> a) ?vs"
    using sortBy_key_desc [of ?f cs] by (simp add: sorted_wrt_map)
  then have "sorted (rev ?vs)" by (simp add: sorted_wrt_rev)
  moreover have "distinct (rev ?vs)" using dist by simp
  moreover have "set (rev ?vs) = set [2, 3, 4, 5, 14 :: int]" using set_vs by auto
  moreover have "sorted [2, 3, 4, 5, 14 :: int]" "distinct [2, 3, 4, 5, 14 :: int]" by simp_all
  ultimately have "rev ?vs = [2, 3, 4, 5, 14]" by (metis sorted_distinct_set_unique)
  then have "rev (rev ?vs) = rev [2, 3, 4, 5, 14]" by simp
  then show ?thesis by simp
qed

lemma not_flush:
  assumes "\<exists>a \<in> set cs. \<exists>b \<in> set cs. suit a \<noteq> suit b"
  shows "\<not> list_all (\<lambda>s. s = map suit (sortBy cmp cs) ! 0) (map suit (sortBy cmp cs))"
proof
  assume "list_all (\<lambda>s. s = map suit (sortBy cmp cs) ! 0) (map suit (sortBy cmp cs))"
  then have "\<forall>c \<in> set cs. suit c = map suit (sortBy cmp cs) ! 0"
    by (simp add: list_all_iff sortBy_set)
  with assms show False by auto
qed


text \<open>
  C6. Every five-card hand whose values are exactly 14, 5, 4, 3, 2 and whose suits are
  not all equal evaluates to a Straight with tiebreak vector \<open>[5]\<close>; and in scenario
  S3 the hero's best hand is that straight, the villain's is a pair of kings, and
  \<open>compareHands\<close> puts the hero first.
\<close>

theorem wheel_is_five_high_straight:
  assumes len: "length cs = 5"
    and vals: "set (map (\<lambda>c. RANK_VALUES (rank c)) cs) = {14, 5, 4, 3, 2}"
    and nf: "\<exists>a \<in> set cs. \<exists>b \<in> set cs. suit a \<noteq> suit b"
  shows "(\<exists>h. evaluateFiveCards cs = Some h \<and> handRank h = Straight \<and> handValues h = [5])
    \<and> (\<exists>hero villain.
          evaluateBestHand (heroCards @ boardS3) = Inr hero
        \<and> evaluateBestHand (villainCards @ boardS3) = Inr villain
        \<and> handRank hero = Straight \<and> handValues hero = [5]
        \<and> handRank villain = OnePair \<and> handValues villain = [13, 11, 9, 5]
        \<and> compareHands hero villain > 0)"
proof
  show "\<exists>h. evaluateFiveCards cs = Some h \<and> handRank h = Straight \<and> handValues h = [5]"
    using len wheel_values [OF len vals] not_flush [OF nf]
    by (simp add: evaluateFiveCards_def Let_def checkWheelStraight_def rankCounts_def
          sortBy_def countsCmp_def makeResult_def)
next
  have h: "map_sum id (\<lambda>h. (handRank h, handValues h)) (evaluateBestHand (heroCards @ boardS3)) = Inr (Straight, [5])"
    by code_simp
  have v: "map_sum id (\<lambda>h. (handRank h, handValues h)) (evaluateBestHand (villainCards @ boardS3)) = Inr (OnePair, [13, 11, 9, 5])"
    by code_simp
  from h obtain hero where hero: "evaluateBestHand (heroCards @ boardS3) = Inr hero"
     "handRank hero = Straight" "handValues hero = [5]"
    by (cases "evaluateBestHand (heroCards @ boardS3)") auto
  from v obtain villain where villain: "evaluateBestHand (villainCards @ boardS3) = Inr villain"
     "handRank villain = OnePair" "handValues villain = [13, 11, 9, 5]"
    by (cases "evaluateBestHand (villainCards @ boardS3)") auto
  have "compareHands hero villain > 0" using hero villain by (simp add: compareHands_def)
  with hero villain show "\<exists>hero villain.
          evaluateBestHand (heroCards @ boardS3) = Inr hero
        \<and> evaluateBestHand (villainCards @ boardS3) = Inr villain
        \<and> handRank hero = Straight \<and> handValues hero = [5]
        \<and> handRank villain = OnePair \<and> handValues villain = [13, 11, 9, 5]
        \<and> compareHands hero villain > 0" by blast
qed


theorem wheel_is_five_high_straight_witness:
  "length wheelHand = 5 \<and> set (map (\<lambda>c. RANK_VALUES (rank c)) wheelHand) = {14, 5, 4, 3, 2}
   \<and> (\<exists>a \<in> set wheelHand. \<exists>b \<in> set wheelHand. suit a \<noteq> suit b)
   \<and> (\<exists>h. evaluateFiveCards wheelHand = Some h \<and> handRank h = Straight \<and> handValues h = [5])"
proof -
  have 1: "length wheelHand = 5" by (simp add: wheelHand_def)
  have 2: "set (map (\<lambda>c. RANK_VALUES (rank c)) wheelHand) = {14, 5, 4, 3, 2}"
    by (auto simp: wheelHand_def)
  have 3: "\<exists>a \<in> set wheelHand. \<exists>b \<in> set wheelHand. suit a \<noteq> suit b"
    by (auto simp: wheelHand_def)
  from wheel_is_five_high_straight [OF 1 2 3] 1 2 3 show ?thesis by blast
qed


section \<open>The shuffle\<close>

lemma card_word32_pred:
  "card {v :: 32 word. P (unat v)} = card {n. n < 4294967296 \<and> P n}"
proof (rule bij_betw_same_card [of unat])
  show "bij_betw unat {v :: 32 word. P (unat v)} {n. n < 4294967296 \<and> P n}"
    unfolding bij_betw_def
  proof
    show "inj_on unat {v :: 32 word. P (unat v)}"
      by (rule inj_onI) (simp add: word_unat_eq_iff)
    show "unat ` {v :: 32 word. P (unat v)} = {n. n < 4294967296 \<and> P n}"
    proof (rule set_eqI, rule iffI)
      fix n assume "n \<in> unat ` {v :: 32 word. P (unat v)}"
      then obtain v :: "32 word" where "n = unat v" "P (unat v)" by auto
      moreover have "unat v < 2 ^ 32" using unsigned_less [of v] by simp
      ultimately show "n \<in> {n. n < 4294967296 \<and> P n}" by simp
    next
      fix n assume "n \<in> {n. n < 4294967296 \<and> P n}"
      then have n: "n < 2 ^ 32" "P n" by simp_all
      then have "unat (of_nat n :: 32 word) = n" by (simp add: unat_of_nat take_bit_nat_eq_self)
      with n have "of_nat n \<in> {v :: 32 word. P (unat v)}" by simp
      then have "unat (of_nat n :: 32 word) \<in> unat ` {v :: 32 word. P (unat v)}" by (rule imageI)
      with \<open>unat (of_nat n :: 32 word) = n\<close> show "n \<in> unat ` {v :: 32 word. P (unat v)}" by simp
    qed
  qed
qed

lemma card_residue3:
  fixes r q :: nat
  assumes "r < 3"
  shows "card {n. n < 3 * q + r' \<and> n mod 3 = r} = card ((\<lambda>k. 3 * k + r) ` {k. 3 * k + r < 3 * q + r'})"
proof -
  have "{n. n < 3 * q + r' \<and> n mod 3 = r} = (\<lambda>k. 3 * k + r) ` {k. 3 * k + r < 3 * q + r'}"
  proof (rule set_eqI, rule iffI)
    fix n assume "n \<in> {n. n < 3 * q + r' \<and> n mod 3 = r}"
    then have "n < 3 * q + r'" "n mod 3 = r" by simp_all
    then have "n = 3 * (n div 3) + r" "3 * (n div 3) + r < 3 * q + r'" by presburger+
    then show "n \<in> (\<lambda>k. 3 * k + r) ` {k. 3 * k + r < 3 * q + r'}" by blast
  next
    fix n assume "n \<in> (\<lambda>k. 3 * k + r) ` {k. 3 * k + r < 3 * q + r'}"
    then show "n \<in> {n. n < 3 * q + r' \<and> n mod 3 = r}" using assms by auto
  qed
  then show ?thesis by simp
qed

lemma card_mod3_0: "card {n::nat. n < 4294967296 \<and> n mod 3 = 0} = 1431655766"
proof -
  have "{k::nat. 3 * k + 0 < 3 * 1431655765 + 1} = {..<1431655766}" by auto
  then have "card ((\<lambda>k::nat. 3 * k + 0) ` {k. 3 * k + 0 < 3 * 1431655765 + 1}) = 1431655766"
    by (subst card_image) (auto simp: inj_on_def)
  then show ?thesis using card_residue3 [of 0 1431655765 1] by simp
qed

lemma card_mod3_1: "card {n::nat. n < 4294967296 \<and> n mod 3 = 1} = 1431655765"
proof -
  have "{k::nat. 3 * k + 1 < 3 * 1431655765 + 1} = {..<1431655765}" by auto
  then have "card ((\<lambda>k::nat. 3 * k + 1) ` {k. 3 * k + 1 < 3 * 1431655765 + 1}) = 1431655765"
    by (subst card_image) (auto simp: inj_on_def)
  then show ?thesis using card_residue3 [of 1 1431655765 1] by simp
qed


text \<open>
  C9. The index selection of the shuffle at step \<open>i = 2\<close>: of the \<open>2^32\<close> values of the
  random word, 1431655766 select index 0 and 1431655765 select index 1. The indices do
  not have the same number of preimages.
\<close>

theorem swapIndex_modulo_bias: "card {v. swapIndex v 2 = 0} = 1431655766 \<and> card {v. swapIndex v 2 = 1} = 1431655765"
proof
  show "card {v. swapIndex v 2 = 0} = 1431655766"
    unfolding swapIndex_def using card_word32_pred [of "\<lambda>n. n mod 3 = 0"] card_mod3_0 by simp
  show "card {v. swapIndex v 2 = 1} = 1431655765"
    unfolding swapIndex_def using card_word32_pred [of "\<lambda>n. n mod 3 = 1"] card_mod3_1 by simp
qed



section \<open>A pot without a winner\<close>

text \<open>
  C1. Chip conservation does not hold over these two hands, played from a new room: the
  three buy-ins sum to 600, and so do the stacks after the first hand; after the
  \<open>hand_end\<close> of the second hand (no hand in progress, nobody has left) they sum to
  599. The chip that the folded big blind paid above the all-in level went into a pot
  with no eligible player, and \<open>showdown\<close> skips such a pot.
\<close>

theorem chips_lost_at_showdown:
  "map_sum id (\<lambda>e. (handInProgress (state e), map chips (players (state e)),
                      totalChips (state e)))
     (run (seatThree @ firstHand) (newGameEngine ''room'' ''A''))
     = Inr (False, [598, 1, 1], 600)
   \<and> map_sum id (\<lambda>e. (handInProgress (state e), map chips (players (state e)),
                        totalChips (state e)))
        (run (seatThree @ firstHand @ secondHand) (newGameEngine ''room'' ''A''))
        = Inr (False, [596, 0, 3], 599)"
  by code_simp

text \<open>
  C3. In the second of these hands, at the moment A has folded the big blind,
  \<open>calculatePots\<close> builds a remainder pot with the positive amount 1 and an empty list
  of eligible players.
\<close>

theorem remainder_pot_without_eligible_player:
  "(case run (seatThree @ firstHand @ butlast secondHand) (newGameEngine ''room'' ''A'') of
      Inl err \<Rightarrow> False
    | Inr e \<Rightarrow>
        (case applyAction 0 Fold None (state e) of
           None \<Rightarrow> False
         | Some s \<Rightarrow>
             calculatePots s =
               [\<lparr>amount = 3, eligiblePlayerIds = [''B'', ''C'']\<rparr>,
                \<lparr>amount = 1, eligiblePlayerIds = []\<rparr>]))"
  by code_simp



section \<open>Splitting a pot\<close>


lemma compareValues_refl: "compareValues vs vs = 0"
  by (induction vs) auto

lemma compareHands_refl: "compareHands h h = 0"
  by (simp add: compareHands_def compareValues_refl)

lemma insertBy_distinct_map:
  "distinct (map f (insertBy cmp x ys)) \<longleftrightarrow> f x \<notin> f ` set ys \<and> distinct (map f ys)"
  by (induction ys) (auto simp: insertBy_set)

lemma sortBy_distinct_map: "distinct (map f (sortBy cmp xs)) \<longleftrightarrow> distinct (map f xs)"
proof (induction xs)
  case Nil
  show ?case by (simp add: sortBy_def)
next
  case (Cons x xs)
  have "sortBy cmp (x # xs) = insertBy cmp x (sortBy cmp xs)" by (simp add: sortBy_def)
  with Cons show ?case by (simp add: insertBy_distinct_map sortBy_set)
qed

lemma evaluateEligible_indices:
  "evaluateEligible s is = Inr evs \<Longrightarrow>
     map fst evs = filter (\<lambda>i. length (holeCards (players s ! i) @ communityCards s) \<ge> 5) is"
proof (induction "is" arbitrary: evs)
  case Nil
  then show ?case by simp
next
  case (Cons i rest)
  then show ?case
    by (auto simp: Let_def split: if_splits sum.splits)
qed

lemma map_update_same: "(map f xs)[k := f (xs ! k)] = map f xs"
  by (simp add: map_update [symmetric])

lemma payWinners_frame:
  "length (fst (payWinners share rem potIdx i ws (ps, hrs))) = length ps
   \<and> map pid (fst (payWinners share rem potIdx i ws (ps, hrs))) = map pid ps
   \<and> (j \<notin> fst ` set ws \<longrightarrow> fst (payWinners share rem potIdx i ws (ps, hrs)) ! j = ps ! j)"
proof (induction ws arbitrary: i ps hrs)
  case Nil
  show ?case by simp
next
  case (Cons w rest)
  obtain k h where w: "w = (k, h)" by (cases w)
  have "map pid (ps[k := (ps ! k)\<lparr>chips := chips (ps ! k) + (share + (if i = 0 then rem else 0))\<rparr>]) = map pid ps"
    by (simp add: map_update map_update_same)
  with Cons [of "i + 1" "ps[k := (ps ! k)\<lparr>chips := chips (ps ! k) + (share + (if i = 0 then rem else 0))\<rparr>]"]
  show ?case by (auto simp: w Let_def)
qed

lemma payWinners_results:
  assumes "\<forall>w \<in> set ws. fst w < length ps"
  shows "\<exists>new. snd (payWinners share rem potIdx i ws (ps, hrs)) = hrs @ new
        \<and> map hrPlayerId new = map (\<lambda>ev. pid (ps ! fst ev)) ws
        \<and> map hrAmount new = map (\<lambda>k. share + (if i + k = 0 then rem else 0)) [0..<length ws]"
  using assms
proof (induction ws arbitrary: i ps hrs)
  case Nil
  show ?case by simp
next
  case (Cons w rest)
  obtain k h where w: "w = (k, h)" by (cases w)
  define amt where "amt = share + (if i = 0 then rem else 0)"
  define ps1 where "ps1 = ps[k := (ps ! k)\<lparr>chips := chips (ps ! k) + amt\<rparr>]"
  define hr where "hr = \<lparr>hrPlayerId = pid (ps ! k), hrAmount = amt, hrHand = Some h, hrPotIndex = potIdx\<rparr>"
  have step: "payWinners share rem potIdx i (w # rest) (ps, hrs)
              = payWinners share rem potIdx (i + 1) rest (ps1, hrs @ [hr])"
    by (simp add: w amt_def ps1_def hr_def Let_def)
  have pids: "map pid ps1 = map pid ps"
    by (simp add: ps1_def map_update map_update_same)
  have inr: "\<forall>w \<in> set rest. fst w < length ps1" using Cons.prems by (simp add: ps1_def)
  from Cons.IH [OF inr, of "i + 1" "hrs @ [hr]"]
  obtain new where new: "snd (payWinners share rem potIdx (i + 1) rest (ps1, hrs @ [hr])) = (hrs @ [hr]) @ new"
    "map hrPlayerId new = map (\<lambda>ev. pid (ps1 ! fst ev)) rest"
    "map hrAmount new = map (\<lambda>k. share + (if i + 1 + k = 0 then rem else 0)) [0..<length rest]"
    by blast
  have ids: "map (\<lambda>ev. pid (ps1 ! fst ev)) rest = map (\<lambda>ev. pid (ps ! fst ev)) rest"
  proof (rule map_cong [OF refl])
    fix ev assume "ev \<in> set rest"
    then have "fst ev < length ps" using Cons.prems by simp
    then have "map pid ps1 ! fst ev = map pid ps ! fst ev" using pids by simp
    then show "pid (ps1 ! fst ev) = pid (ps ! fst ev)"
      using \<open>fst ev < length ps\<close> by (simp add: ps1_def)
  qed
  have amts: "map (\<lambda>k. share + (if i + k = 0 then rem else 0)) [0..<length (w # rest)]
      = amt # map (\<lambda>k. share + (if i + 1 + k = 0 then rem else 0)) [0..<length rest]"
    by (simp add: map_upt_Suc amt_def del: upt_Suc)
  show ?case
    unfolding step
    by (rule exI [of _ "hr # new"]) (use new ids amts in \<open>simp add: hr_def w\<close>)
qed

lemma payWinners_chips:
  assumes "distinct (map fst ws)" "\<forall>w \<in> set ws. fst w < length ps" "k < length ws"
  shows "chips (fst (payWinners share rem potIdx i ws (ps, hrs)) ! fst (ws ! k))
         = chips (ps ! fst (ws ! k)) + (share + (if i + k = 0 then rem else 0))"
  using assms
proof (induction ws arbitrary: i ps hrs k)
  case Nil
  then show ?case by simp
next
  case (Cons w rest)
  obtain j h where w: "w = (j, h)" by (cases w)
  define amt where "amt = share + (if i = 0 then rem else 0)"
  define ps1 where "ps1 = ps[j := (ps ! j)\<lparr>chips := chips (ps ! j) + amt\<rparr>]"
  define hr where "hr = \<lparr>hrPlayerId = pid (ps ! j), hrAmount = amt, hrHand = Some h, hrPotIndex = potIdx\<rparr>"
  have step: "payWinners share rem potIdx i (w # rest) (ps, hrs)
              = payWinners share rem potIdx (i + 1) rest (ps1, hrs @ [hr])"
    by (simp add: w amt_def ps1_def hr_def Let_def)
  have jlt: "j < length ps" using Cons.prems(2) by (simp add: w)
  have jnotin: "j \<notin> fst ` set rest" using Cons.prems(1) by (simp add: w)
  show ?case
  proof (cases k)
    case 0
    have "fst (payWinners share rem potIdx (i + 1) rest (ps1, hrs @ [hr])) ! j = ps1 ! j"
      using payWinners_frame [of share rem potIdx "i + 1" rest ps1 "hrs @ [hr]" j] jnotin by simp
    then show ?thesis unfolding step 0 using jlt by (simp add: w ps1_def amt_def)
  next
    case (Suc k')
    have k': "k' < length rest" using Cons.prems(3) Suc by simp
    then have "fst (rest ! k') \<in> fst ` set rest" by (metis imageI nth_mem)
    then have ne: "fst (rest ! k') \<noteq> j" using jnotin by auto
    have d: "distinct (map fst rest)" using Cons.prems(1) by simp
    have inr: "\<forall>w \<in> set rest. fst w < length ps1" using Cons.prems(2) by (simp add: ps1_def)
    from Cons.IH [OF d inr k', of "i + 1" "hrs @ [hr]"] ne
    show ?thesis unfolding step Suc by (simp add: ps1_def)
  qed
qed

lemma first_plus_rest:
  "0 < n \<Longrightarrow> map (\<lambda>k. share + (if 0 + k = 0 then rem else 0)) [0..<n]
     = (share + rem) # replicate (n - 1) (share :: int)"
proof -
  assume "0 < n"
  then obtain m where n: "n = Suc m" by (cases n) auto
  have "map (\<lambda>k. share + (if 0 + k = 0 then rem else 0)) [0..<Suc m]
        = (share + rem) # map (\<lambda>k. share) [0..<m]"
    by (simp add: map_upt_Suc del: upt_Suc)
  also have "map (\<lambda>k. share) [0..<m] = replicate m share"
    by (simp add: map_replicate_const)
  finally show ?thesis by (simp add: n)
qed


text \<open>
  C7 (amended). When \<open>showdown\<close> pays a pot for which at least one eligible hand was
  evaluated, with \<open>n\<close> tied winners: every winner receives \<open>amount div n\<close>, and the
  remainder \<open>amount mod n\<close> goes to the first of the tied winners in the engine's
  evaluation order, which is the head of its stable best-first sort of the eligible
  players' hands.
\<close>

theorem odd_chips_go_to_first_winner:
  assumes ev: "evaluateEligible s
                 (filter (\<lambda>i. pid (players s ! i) \<in> set (eligiblePlayerIds p)) notFolded) = Inr unsorted"
    and ne: "unsorted \<noteq> []"
    and dist: "distinct notFolded"
    and inr: "\<forall>i \<in> set notFolded. i < length (players s)"
  shows "let evaluations = sortBy (\<lambda>a b. compareHands (snd b) (snd a)) unsorted;
             tied = filter (\<lambda>ev. compareHands (snd ev) (snd (evaluations ! 0)) = 0) evaluations;
             n = length tied
         in 0 < n \<and> tied ! 0 = evaluations ! 0
          \<and> (\<exists>s' results' new.
                potLoop notFolded potIdx [p] (s, results, handResults)
                  = Inr (s', results', handResults @ new)
              \<and> map hrPlayerId new = map (\<lambda>ev. pid (players s ! fst ev)) tied
              \<and> map hrAmount new
                  = (amount p div int n + amount p mod int n) # replicate (n - 1) (amount p div int n)
              \<and> (\<forall>k < n. chips (players s' ! fst (tied ! k))
                    = chips (players s ! fst (tied ! k))
                      + (amount p div int n + (if k = 0 then amount p mod int n else 0))))"
proof -
  define evaluations where "evaluations = sortBy (\<lambda>a b. compareHands (snd b) (snd a)) unsorted"
  define tied where "tied = filter (\<lambda>ev. compareHands (snd ev) (snd (evaluations ! 0)) = 0) evaluations"
  define n where "n = length tied"
  define share where "share = amount p div int n"
  define rem where "rem = amount p - share * int n"
  have "length evaluations = length unsorted" by (simp add: evaluations_def sortBy_length)
  with ne obtain b rest where evs: "evaluations = b # rest" by (cases evaluations) auto
  have tied_eq: "tied = b # filter (\<lambda>ev. compareHands (snd ev) (snd b) = 0) rest"
    by (simp add: tied_def evs compareHands_refl)
  have npos: "0 < n" and first: "tied ! 0 = evaluations ! 0"
    by (simp_all add: n_def tied_eq evs)
  have rem_mod: "rem = amount p mod int n"
    unfolding rem_def share_def by (simp add: minus_div_mult_eq_mod)
  have "map fst unsorted = filter (\<lambda>i. length (holeCards (players s ! i) @ communityCards s) \<ge> 5)
          (filter (\<lambda>i. pid (players s ! i) \<in> set (eligiblePlayerIds p)) notFolded)"
    using ev by (rule evaluateEligible_indices)
  then have d0: "distinct (map fst unsorted)" and sub0: "set (map fst unsorted) \<subseteq> set notFolded"
    using dist by auto
  have d1: "distinct (map fst tied)"
    unfolding tied_def evaluations_def using d0 by (simp add: distinct_map_filter sortBy_distinct_map)
  have "set tied \<subseteq> set unsorted" by (auto simp: tied_def evaluations_def sortBy_set)
  then have in1: "\<forall>w \<in> set tied. fst w < length (players s)" using sub0 inr by auto
  obtain ps' hrs' where pay: "payWinners share rem potIdx 0 tied (players s, handResults) = (ps', hrs')"
    by (cases "payWinners share rem potIdx 0 tied (players s, handResults)") auto
  from payWinners_results [OF in1, of share rem potIdx 0 handResults] pay
  obtain new where new: "hrs' = handResults @ new"
      "map hrPlayerId new = map (\<lambda>ev. pid (players s ! fst ev)) tied"
      "map hrAmount new = map (\<lambda>k. share + (if 0 + k = 0 then rem else 0)) [0..<n]"
    by (auto simp: n_def)
  have amounts: "map hrAmount new = (share + rem) # replicate (n - 1) share"
    using new(3) first_plus_rest [OF npos] by simp
  have chips: "\<forall>k < n. chips (ps' ! fst (tied ! k))
      = chips (players s ! fst (tied ! k)) + (share + (if k = 0 then rem else 0))"
    using payWinners_chips [OF d1 in1, of _ share rem potIdx 0 handResults] pay
    by (simp add: n_def)
  have loop: "potLoop notFolded potIdx [p] (s, results, handResults)
      = Inr (s\<lparr>players := ps'\<rparr>, addResults ps' hrs' evaluations results, hrs')"
    using ev ne pay
    by (simp add: Let_def evaluations_def [symmetric] tied_def [symmetric] n_def [symmetric]
          share_def [symmetric] rem_def [symmetric])
  show ?thesis
    unfolding Let_def evaluations_def [symmetric] tied_def [symmetric] n_def [symmetric]
    using npos first loop new(1,2) amounts chips
    by (simp add: share_def [symmetric] rem_mod)
qed


theorem odd_chips_go_to_first_winner_witness:
  "(\<exists>unsorted.
      evaluateEligible splitRiver
        (filter (\<lambda>i. pid (players splitRiver ! i) \<in> set (eligiblePlayerIds splitPot)) [0, 2])
        = Inr unsorted \<and> unsorted \<noteq> [])
   \<and> distinct [0, 2 :: nat]
   \<and> list_all (\<lambda>i. i < length (players splitRiver)) [0, 2]
   \<and> (\<exists>s' results' new.
         potLoop [0, 2] 0 [splitPot] (splitRiver, [], []) = Inr (s', results', new)
       \<and> map hrPlayerId new = [''A'', ''C''] \<and> map hrAmount new = [21, 20]
       \<and> map chips (players s') = [201, 199, 200])"
proof -
  let ?el = "filter (\<lambda>i. pid (players splitRiver ! i) \<in> set (eligiblePlayerIds splitPot)) [0, 2]"
  have "map_sum id (map fst) (evaluateEligible splitRiver ?el) = Inr [0, 2]"
    by code_simp
  then obtain unsorted where u: "evaluateEligible splitRiver ?el = Inr unsorted" "unsorted \<noteq> []"
    by (cases "evaluateEligible splitRiver ?el") auto
  have d: "distinct [0, 2 :: nat]" by simp
  have r: "\<forall>i \<in> set [0, 2]. i < length (players splitRiver)" by code_simp
  have p: "map_sum id (\<lambda>(s', results', new).
               (map hrPlayerId new, map hrAmount new, map chips (players s')))
             (potLoop [0, 2] 0 [splitPot] (splitRiver, [], []))
           = Inr ([''A'', ''C''], [21, 20], [201, 199, 200])"
    by code_simp
  from odd_chips_go_to_first_winner [OF u d r, of 0 "[]" "[]"]
  obtain s' results' new where
    "potLoop [0, 2] 0 [splitPot] (splitRiver, [], []) = Inr (s', results', new)"
    by (auto simp: Let_def)
  with p have "potLoop [0, 2] 0 [splitPot] (splitRiver, [], []) = Inr (s', results', new)
       \<and> map hrPlayerId new = [''A'', ''C''] \<and> map hrAmount new = [21, 20]
       \<and> map chips (players s') = [201, 199, 200]"
    by simp
  then have b: "\<exists>s' results' new.
         potLoop [0, 2] 0 [splitPot] (splitRiver, [], []) = Inr (s', results', new)
       \<and> map hrPlayerId new = [''A'', ''C''] \<and> map hrAmount new = [21, 20]
       \<and> map chips (players s') = [201, 199, 200]"
    by (intro exI)
  have a: "\<exists>unsorted. evaluateEligible splitRiver ?el = Inr unsorted \<and> unsorted \<noteq> []"
    using u by (intro exI conjI)
  have r': "list_all (\<lambda>i. i < length (players splitRiver)) [0, 2]"
    using r by (simp add: list_all_iff)
  show ?thesis by (rule conjI [OF a conjI [OF d conjI [OF r' b]]])
qed

text \<open>
  C7 as stated fails on the hand \<open>splitHand\<close>: the pot of 41 is split between A, who
  holds the dealer button at seat 0, and C at seat 2. The tied winner closest to the
  left of the dealer is C, but the odd chip goes to A: A wins 21 and C wins 20.
\<close>

theorem odd_chip_goes_to_dealer_not_dealer_left:
  "(case run splitHand (newGameEngine ''room'' ''A'') of
      Inl err \<Rightarrow> False
    | Inr e \<Rightarrow>
        dealerSeatIndex (state e) = 0
        \<and> map_option (map (\<lambda>h. (hrPlayerId h, hrAmount h))) (winners (state e))
            = Some [(''A'', 21), (''C'', 20)]
        \<and> map (\<lambda>p. (pid p, seatIndex p, chips p)) (players (state e))
            = [(''A'', 0, 201), (''B'', 1, 199), (''C'', 2, 200)]
        \<and> map_option pid
            (closestLeftOfDealer (dealerSeatIndex (state e))
               (filter (\<lambda>p. pid p \<in> set [''A'', ''C'']) (players (state e))))
            = Some ''C'')"
  by code_simp


section \<open>The deck is never exhausted\<close>

declare advanceToNextRound.simps [simp del] startBettingRound.simps [simp del]
  promptAction.simps [simp del]

lemma okResult_simps [simp]:
  "okResult (Inr e) = deckWithinBounds e"
  "okResult (Inl err) = False"
  by (simp_all add: okResult_def)

subsection \<open>The evaluator returns a hand for five cards or more\<close>

lemma getCombinations_length: "c \<in> set (getCombinations xs k) \<Longrightarrow> length c = k"
  by (induction xs k arbitrary: c rule: getCombinations.induct) auto

lemma getCombinations_nonempty: "k \<le> length xs \<Longrightarrow> getCombinations xs k \<noteq> []"
  by (induction xs k rule: getCombinations.induct) auto

lemma evaluateFiveCards_Some: "length cs = 5 \<Longrightarrow> \<exists>h. evaluateFiveCards cs = Some h"
  by (simp add: evaluateFiveCards_def Let_def)

lemma bestOf_Some:
  "\<forall>c \<in> set combos. length c = 5 \<Longrightarrow> best \<noteq> None \<or> combos \<noteq> [] \<Longrightarrow>
     \<exists>h. bestOf best combos = Some h"
proof (induction combos arbitrary: best)
  case Nil
  then show ?case by auto
next
  case (Cons c combos)
  from Cons.prems(1) have "length c = 5" by simp
  then obtain h where h: "evaluateFiveCards c = Some h" using evaluateFiveCards_Some by blast
  have rest: "\<forall>c \<in> set combos. length c = 5" using Cons.prems(1) by simp
  show ?case
  proof (cases best)
    case None
    with h Cons.IH [OF rest, of "Some h"] show ?thesis by simp
  next
    case (Some b)
    with h Cons.IH [OF rest, of "Some h"] Cons.IH [OF rest, of "Some b"] show ?thesis by simp
  qed
qed

lemma evaluateBestHand_ok: "5 \<le> length cs \<Longrightarrow> \<exists>h. evaluateBestHand cs = Inr h"
proof -
  assume len: "5 \<le> length cs"
  have "\<forall>c \<in> set (getCombinations cs 5). length c = 5" using getCombinations_length by blast
  moreover have "getCombinations cs 5 \<noteq> []" using len by (rule getCombinations_nonempty)
  ultimately obtain h where "bestOf None (getCombinations cs 5) = Some h"
    using bestOf_Some [of "getCombinations cs 5" None] by blast
  with len show ?thesis by (simp add: evaluateBestHand_def)
qed

lemma evaluateEligible_ok: "\<exists>evs. evaluateEligible s is = Inr evs"
proof (induction "is")
  case Nil
  show ?case by simp
next
  case (Cons i rest)
  then obtain evs where evs: "evaluateEligible s rest = Inr evs" ..
  show ?case
  proof (cases "5 \<le> length (holeCards (players s ! i) @ communityCards s)")
    case True
    from evaluateBestHand_ok [OF True] obtain h where
      "evaluateBestHand (holeCards (players s ! i) @ communityCards s) = Inr h" ..
    with True evs show ?thesis by (simp add: Let_def)
  next
    case False
    with evs show ?thesis by (simp add: Let_def)
  qed
qed

subsection \<open>Dealing\<close>

lemma dealMultiple_ok:
  "position d + k \<le> length (cards d) \<Longrightarrow>
     \<exists>cs. dealMultiple k d = Inr (cs, d\<lparr>position := position d + k\<rparr>)"
proof (induction k arbitrary: d)
  case 0
  show ?case by simp
next
  case (Suc k)
  let ?d1 = "d\<lparr>position := position d + 1\<rparr>"
  have d: "deal d = Inr (cards d ! position d, ?d1)" using Suc.prems by (simp add: deal_def)
  have "position ?d1 + k \<le> length (cards ?d1)" using Suc.prems by simp
  from Suc.IH [OF this] obtain cs where "dealMultiple k ?d1 = Inr (cs, ?d1\<lparr>position := position ?d1 + k\<rparr>)" ..
  with d show ?case by simp
qed

lemma burn_ok: "position d < length (cards d) \<Longrightarrow> burn d = Inr (d\<lparr>position := position d + 1\<rparr>)"
  by (simp add: burn_def deal_def)

lemma dealCommunityCards_ok:
  assumes d: "deck e = Some d" and room: "position d + 4 \<le> length (cards d)"
  shows "\<exists>e'. dealCommunityCards r e = Inr e'
           \<and> players (state e') = players (state e)
           \<and> bettingRound (state e') = bettingRound (state e)
           \<and> deck e' = Some (d\<lparr>position := position d + roundDraw r\<rparr>)"
proof -
  let ?d1 = "d\<lparr>position := position d + 1\<rparr>"
  have b: "burn d = Inr ?d1" using room by (simp add: burn_ok)
  show ?thesis
  proof (cases r)
    case Preflop
    then show ?thesis using d b by (simp add: dealCommunityCards_def)
  next
    case Flop
    have "position ?d1 + 3 \<le> length (cards ?d1)" using room by simp
    from dealMultiple_ok [OF this] obtain cs where "dealMultiple 3 ?d1 = Inr (cs, ?d1\<lparr>position := position ?d1 + 3\<rparr>)" ..
    then show ?thesis using d b Flop by (simp add: dealCommunityCards_def emit_def Let_def)
  next
    case Turn
    have "position ?d1 + 1 \<le> length (cards ?d1)" using room by simp
    from dealMultiple_ok [OF this] obtain cs where "dealMultiple 1 ?d1 = Inr (cs, ?d1\<lparr>position := position ?d1 + 1\<rparr>)" ..
    then show ?thesis using d b Turn by (simp add: dealCommunityCards_def emit_def Let_def)
  next
    case River
    have "position ?d1 + 1 \<le> length (cards ?d1)" using room by simp
    from dealMultiple_ok [OF this] obtain cs where "dealMultiple 1 ?d1 = Inr (cs, ?d1\<lparr>position := position ?d1 + 1\<rparr>)" ..
    then show ?thesis using d b River by (simp add: dealCommunityCards_def emit_def Let_def)
  qed
qed

lemma next_round_draw:
  "getNextBettingRound s = Some r \<Longrightarrow> drawnBy (bettingRound s) + roundDraw r = drawnBy r"
  by (auto simp: getNextBettingRound_def split: BettingRound.splits)

lemma endHand_ok: "deckWithinBounds e \<Longrightarrow> deckWithinBounds (endHand e)"
proof -
  assume a: "deckWithinBounds e"
  have "length (filter P (players (state e))) \<le> 6" for P
    using a order_trans [OF length_filter_le, of "players (state e)" 6 P]
    by (simp add: deckWithinBounds_def)
  with a show ?thesis
    by (auto simp: deckWithinBounds_def endHand_def clearActionTimer_def emit_def Let_def
             split: option.splits)
qed

lemma endHandFold_ok: "deckWithinBounds e \<Longrightarrow> deckWithinBounds (endHandFold w e)"
proof (cases w)
  case None
  assume "deckWithinBounds e"
  then show ?thesis using None by (simp add: endHandFold_def endHand_ok)
next
  case (Some i)
  assume a: "deckWithinBounds e"
  have "deckWithinBounds (emit (Showdown [\<lparr>srPlayerId = pid (players (state e) ! i), srCards = [],
                                        srHand = None, srWinAmount = pot (state e)\<rparr>])
          (e\<lparr>state := (updPlayer i (\<lambda>p. p\<lparr>chips := chips p + pot (state e)\<rparr>) (state e))
              \<lparr>winners := Some [\<lparr>hrPlayerId = pid (players (state e) ! i), hrAmount = pot (state e),
                                          hrHand = None, hrPotIndex = 0\<rparr>]\<rparr>\<rparr>))"
    using a by (auto simp: deckWithinBounds_def emit_def updPlayer_def split: option.splits)
  then show ?thesis using Some by (simp add: endHandFold_def Let_def endHand_ok)
qed


lemma potLoop_ok:
  "\<exists>s' r' h'. potLoop nf k pots (s, r, h) = Inr (s', r', h')
      \<and> length (players s') = length (players s) \<and> bettingRound s' = bettingRound s"
proof (induction pots arbitrary: k s r h)
  case Nil
  show ?case by simp
next
  case (Cons p rest)
  let ?el = "filter (\<lambda>i. pid (players s ! i) \<in> set (eligiblePlayerIds p)) nf"
  obtain unsorted where ev: "evaluateEligible s ?el = Inr unsorted"
    using evaluateEligible_ok [of s ?el] ..
  show ?case
  proof (cases "length unsorted = 0")
    case True
    with ev Cons.IH [of "k + 1" s r h] show ?thesis by (simp add: Let_def)
  next
    case False
    define evaluations where "evaluations = sortBy (\<lambda>a b. compareHands (snd b) (snd a)) unsorted"
    define tied where
      "tied = filter (\<lambda>ev. compareHands (snd ev) (snd (evaluations ! 0)) = 0) evaluations"
    define share where "share = amount p div int (length tied)"
    define rem where "rem = amount p - share * int (length tied)"
    obtain ps hrs where pay: "payWinners share rem k 0 tied (players s, h) = (ps, hrs)"
      by (cases "payWinners share rem k 0 tied (players s, h)") auto
    have len: "length ps = length (players s)"
      using payWinners_frame [of share rem k 0 tied "players s" h] pay by simp
    have "potLoop nf k (p # rest) (s, r, h)
          = potLoop nf (k + 1) rest (s\<lparr>players := ps\<rparr>, addResults ps hrs evaluations r, hrs)"
      using ev False pay
      by (simp add: Let_def evaluations_def [symmetric] tied_def [symmetric]
            share_def [symmetric] rem_def [symmetric])
    with Cons.IH [of "k + 1" "s\<lparr>players := ps\<rparr>" "addResults ps hrs evaluations r" hrs] len
    show ?thesis by simp
  qed
qed

lemma showdown_ok: "deckWithinBounds e \<Longrightarrow> okResult (showdown e)"
proof -
  assume a: "deckWithinBounds e"
  from potLoop_ok [of "indicesWhere (\<lambda>p. \<not> hasFolded p) (state e)" 0
          "calculatePots (state e)" "state e" "[]" "[]"]
  obtain s1 results hrs where res:
    "potLoop (indicesWhere (\<lambda>p. \<not> hasFolded p) (state e)) 0 (calculatePots (state e))
       (state e, [], []) = Inr (s1, results, hrs)"
    "length (players s1) = length (players (state e))"
    "bettingRound s1 = bettingRound (state e)"
    by blast
  have "deckWithinBounds (emit (Showdown results) (e\<lparr>state := s1\<lparr>winners := Some hrs\<rparr>\<rparr>))"
    using a res(2,3) by (auto simp: deckWithinBounds_def emit_def split: option.splits)
  then show ?thesis using res(1) by (simp add: showdown_def Let_def endHand_ok)
qed

subsection \<open>Array indices of the turn order\<close>

lemma findIndex_bounds: "- 1 \<le> findIndex P xs \<and> findIndex P xs < int (length xs)"
  by (induction xs) (auto simp: Let_def)

lemma findIndex_found: "list_ex P xs \<Longrightarrow> 0 \<le> findIndex P xs"
  by (induction xs) (auto simp: Let_def)

lemma jsRem_bounds: "0 \<le> a \<Longrightarrow> 0 < n \<Longrightarrow> 0 \<le> jsRem a n \<and> jsRem a n < n"
  by (simp add: jsRem_def)

lemma at_Some: "0 \<le> i \<Longrightarrow> i < int (length xs) \<Longrightarrow> \<exists>x. at xs i = Some x"
  by (simp add: at_def)

lemma firstActorLoop_ok:
  "0 \<le> startIdx \<Longrightarrow> ap \<noteq> [] \<Longrightarrow> \<exists>s'. firstActorLoop s ap startIdx is = Inr s'"
proof (induction "is")
  case Nil
  show ?case by simp
next
  case (Cons i rest)
  have n: "0 < int (length ap)" using Cons.prems(2) by simp
  have "0 \<le> startIdx + int i" using Cons.prems(1) by simp
  from jsRem_bounds [OF this n] obtain x where
    "at ap (jsRem (startIdx + int i) (int (length ap))) = Some x"
    using at_Some by blast
  with Cons show ?case by auto
qed

lemma findFirstActor_ok:
  assumes "bettingRound s = Preflop \<Longrightarrow> dealerSeated s"
  shows "\<exists>s'. findFirstActor s = Inr s'"
proof (cases "getActivePlayers s = []")
  case True
  then show ?thesis by (simp add: findFirstActor_def Let_def)
next
  case False
  define ap where "ap = getActivePlayers s"
  define dealerIdx where
    "dealerIdx = findIndex (\<lambda>i. seatIndex (players s ! i) = dealerSeatIndex s) ap"
  define startIdx where
    "startIdx = (if bettingRound s = Preflop then
                   (if length ap = 2 then dealerIdx else jsRem (dealerIdx + 3) (int (length ap)))
                 else jsRem (dealerIdx + 1) (int (length ap)))"
  have n: "0 < int (length ap)" using False by (simp add: ap_def)
  have lo: "- 1 \<le> dealerIdx" unfolding dealerIdx_def using findIndex_bounds by blast
  have pre: "0 \<le> dealerIdx" if "bettingRound s = Preflop"
    using assms [OF that] unfolding dealerIdx_def ap_def dealerSeated_def
    by (rule findIndex_found)
  have "0 \<le> startIdx"
    unfolding startIdx_def using pre lo jsRem_bounds [OF _ n, of "dealerIdx + 3"]
      jsRem_bounds [OF _ n, of "dealerIdx + 1"] by auto
  moreover have "ap \<noteq> []" using False by (simp add: ap_def)
  moreover have "findFirstActor s = firstActorLoop s ap startIdx [0..<length ap]"
    by (simp only: findFirstActor_def Let_def ap_def dealerIdx_def startIdx_def)
  ultimately show ?thesis using firstActorLoop_ok [of startIdx ap s "[0..<length ap]"] by simp
qed

lemma next_round_not_preflop: "getNextBettingRound s = Some r \<Longrightarrow> r \<noteq> Preflop"
  by (auto simp: getNextBettingRound_def split: BettingRound.splits)

subsection \<open>Rounds and actions\<close>

lemma firstActorLoop_players:
  "firstActorLoop s ap k is = Inr s' \<Longrightarrow> players s' = players s"
  by (induction "is") (auto split: option.splits if_splits)

lemma findFirstActor_players: "findFirstActor s = Inr s' \<Longrightarrow> players s' = players s"
  unfolding findFirstActor_def Let_def by (rule firstActorLoop_players)

lemma resetBets_ok: "deckWithinBounds e \<Longrightarrow> deckWithinBounds (resetBets e)"
  by (auto simp: deckWithinBounds_def resetBets_def emit_def Let_def split: option.splits)

lemma rounds_ok:
  "deckWithinBounds e1 \<longrightarrow> okResult (advanceToNextRound e1)"
  "deckWithinBounds e2 \<and> (bettingRound (state e2) = Preflop \<longrightarrow> dealerSeated (state e2))
     \<longrightarrow> okResult (startBettingRound e2)"
  "deckWithinBounds e3 \<longrightarrow> okResult (promptAction e3)"
proof (induction e1 and e2 and e3 rule: advanceToNextRound_startBettingRound_promptAction.induct)
  case (1 e)
  show ?case
  proof
    assume a: "deckWithinBounds e"
    define notFolded where "notFolded = indicesWhere (\<lambda>p. \<not> hasFolded p) (state e)"
    define canAct where "canAct = filter (\<lambda>i. \<not> isAllIn (players (state e) ! i)) notFolded"
    show "okResult (advanceToNextRound e)"
    proof (cases "length notFolded \<le> 1")
      case True
      then show ?thesis using a
        by (simp add: advanceToNextRound.simps [of e] notFolded_def [symmetric] endHandFold_ok)
    next
      case False
      show ?thesis
      proof (cases "getNextBettingRound (state e)")
        case None
        then show ?thesis using a False
          by (simp add: advanceToNextRound.simps [of e] notFolded_def [symmetric] Let_def showdown_ok)
      next
        case (Some nextRound)
        let ?er = "e\<lparr>state := (state e)\<lparr>bettingRound := nextRound\<rparr>\<rparr>"
        have "\<exists>b. dealCommunityCards nextRound ?er = Inr b \<and> deckWithinBounds b
                \<and> bettingRound (state b) = nextRound"
        proof (cases "deck e")
          case None
          then have "dealCommunityCards nextRound ?er = Inr ?er" by (simp add: dealCommunityCards_def)
          moreover have "deckWithinBounds ?er" using a None by (simp add: deckWithinBounds_def)
          moreover have "bettingRound (state ?er) = nextRound" by simp
          ultimately show ?thesis by blast
        next
          case (Some d)
          have dk: "deck ?er = Some d" using Some by simp
          have bnd: "length (cards d) = 52" "position d \<le> 12 + drawnBy (bettingRound (state e))"
            using a Some by (simp_all add: deckWithinBounds_def)
          have "drawnBy (bettingRound (state e)) \<le> 8" by (cases "bettingRound (state e)") auto
          then have room: "position d + 4 \<le> length (cards d)" using bnd by simp
          from dealCommunityCards_ok [OF dk room, of nextRound]
          obtain b where b: "dealCommunityCards nextRound ?er = Inr b"
            "players (state b) = players (state ?er)" "bettingRound (state b) = bettingRound (state ?er)"
            "deck b = Some (d\<lparr>position := position d + roundDraw nextRound\<rparr>)" by blast
          have "deckWithinBounds b"
            using a b bnd next_round_draw [OF \<open>getNextBettingRound (state e) = Some nextRound\<close>]
            by (simp add: deckWithinBounds_def)
          with b(1) b(3) show ?thesis by auto
        qed
        then obtain b where b: "dealCommunityCards nextRound ?er = Inr b" "deckWithinBounds b"
          "bettingRound (state b) = nextRound" by blast
        have "okResult (advanceToNextRound b)" if "length canAct \<le> 1"
          using "1.IH"(1) [OF notFolded_def False canAct_def Some b(1) that] b(2) by simp
        moreover have "okResult (startBettingRound b)" if "\<not> length canAct \<le> 1"
          using "1.IH"(2) [OF notFolded_def False canAct_def Some b(1) that] b(2) b(3)
            next_round_not_preflop [OF Some] by simp
        ultimately show ?thesis using False Some b(1)
          by (simp add: advanceToNextRound.simps [of e] notFolded_def [symmetric]
                canAct_def [symmetric] Let_def)
      qed
    qed
  qed
next
  case (2 e)
  show ?case
  proof
    assume a0: "deckWithinBounds e \<and> (bettingRound (state e) = Preflop \<longrightarrow> dealerSeated (state e))"
    then have a: "deckWithinBounds e" by simp
    define x where "x = (if bettingRound (state e) \<noteq> Preflop then resetBets e else e)"
    define canAct where "canAct = getPlayersWhoCanAct (state x)"
    define notFolded where "notFolded = filter (\<lambda>p. \<not> hasFolded p) (players (state x))"
    have x: "deckWithinBounds x" using a by (simp add: x_def resetBets_ok)
    show "okResult (startBettingRound e)"
    proof (cases "length notFolded \<le> 1 \<or> length canAct = 0")
      case True
      from "2.IH"(1) [OF x_def canAct_def notFolded_def True] x
      have "okResult (advanceToNextRound x)" by simp
      then show ?thesis using True
        by (simp add: startBettingRound.simps [of e] x_def [symmetric] canAct_def [symmetric]
              notFolded_def [symmetric] Let_def)
    next
      case False
      have "dealerSeated (state x)" if "bettingRound (state x) = Preflop"
        using that a0 by (auto simp: x_def resetBets_bettingRound split: if_splits)
      then obtain s2 where Inr: "findFirstActor (state x) = Inr s2"
        using findFirstActor_ok [of "state x"] by blast
      show ?thesis
      proof -
        have "deckWithinBounds (x\<lparr>state := s2\<rparr>)"
          using x findFirstActor_players [OF Inr] findFirstActor_bettingRound [OF Inr]
          by (auto simp: deckWithinBounds_def split: option.splits)
        with "2.IH"(2) [OF x_def canAct_def notFolded_def False Inr]
        have "okResult (promptAction (x\<lparr>state := s2\<rparr>))" by simp
        then show ?thesis using False Inr
          by (simp add: startBettingRound.simps [of e] x_def [symmetric] canAct_def [symmetric]
                notFolded_def [symmetric] Let_def)
      qed
    qed
  qed
next
  case (3 e)
  show ?case
  proof
    assume a: "deckWithinBounds e"
    show "okResult (promptAction e)"
    proof (cases "getActivePlayer (state e)")
      case None
      with "3.IH" a show ?thesis by (simp add: promptAction.simps [of e])
    next
      case (Some i)
      then show ?thesis using a
        by (auto simp: promptAction.simps [of e] Let_def deckWithinBounds_def emit_def
              clearActionTimer_def split: option.splits)
    qed
  qed
qed


lemma applyAction_shape:
  "applyAction i act amt s = Some s' \<Longrightarrow>
     length (players s') = length (players s) \<and> bettingRound s' = bettingRound s"
  by (cases act)
     (auto simp: applyAction_def raiseAction_def updPlayer_def Let_def split: if_splits)

lemma advanceAction_ok: "deckWithinBounds e \<Longrightarrow> okResult (advanceAction e)"
proof (cases "findNextActor (state e)")
  case None
  assume "deckWithinBounds e"
  then show ?thesis using None rounds_ok(1) [of e] by (simp add: advanceAction_def)
next
  case (Some nextPlayer)
  assume a: "deckWithinBounds e"
  then have "deckWithinBounds (e\<lparr>state := (state e)\<lparr>activePlayerIndex := int nextPlayer\<rparr>\<rparr>)"
    by (auto simp: deckWithinBounds_def split: option.splits)
  then show ?thesis
    using Some rounds_ok(3) [of "e\<lparr>state := (state e)\<lparr>activePlayerIndex := int nextPlayer\<rparr>\<rparr>"]
    by (simp add: advanceAction_def)
qed

lemma handleAction_ok:
  assumes a: "deckWithinBounds e"
  shows "case handleAction i act amt e of
           Inl err \<Rightarrow> False
         | Inr (accepted, e') \<Rightarrow> deckWithinBounds e'"
proof (cases "findPlayer i (state e)")
  case None
  then show ?thesis using a by (simp add: handleAction_def)
next
  case (Some k)
  show ?thesis
  proof (cases "isOnAction i (state e)")
    case False
    then show ?thesis using a Some
      by (auto simp: handleAction_def isOnAction_def split: option.splits)
  next
    case True
    have e0: "deckWithinBounds (clearActionTimer e)"
      using a by (auto simp: deckWithinBounds_def clearActionTimer_def split: option.splits)
    show ?thesis
    proof (cases "applyAction k act amt (state (clearActionTimer e))")
      case None
      then show ?thesis using True Some e0
        by (auto simp: handleAction_def isOnAction_def Let_def split: option.splits)
    next
      case (Some s1)
      define e1 where "e1 = emit (PlayerActed (pid (players s1 ! k)) (lastAction (players s1 ! k))
                                       (currentBet (players s1 ! k)) (pot s1) (chips (players s1 ! k)))
                                 ((clearActionTimer e)\<lparr>state := s1\<rparr>)"
      have e1: "deckWithinBounds e1"
        using e0 applyAction_shape [OF Some]
        by (auto simp: e1_def deckWithinBounds_def emit_def clearActionTimer_def split: option.splits)
      have res: "handleAction i act amt e =
           (if length (indicesWhere (\<lambda>p. \<not> hasFolded p) s1) \<le> 1
            then Inr (True, endHandFold (at (indicesWhere (\<lambda>p. \<not> hasFolded p) s1) 0) e1)
            else (case advanceAction e1 of Inl err \<Rightarrow> Inl err | Inr e2 \<Rightarrow> Inr (True, e2)))"
        using True Some \<open>findPlayer i (state e) = Some k\<close>
        by (auto simp: handleAction_def isOnAction_def Let_def e1_def split: option.splits)
      show ?thesis
        unfolding res using endHandFold_ok [OF e1] advanceAction_ok [OF e1]
        by (auto simp: okResult_def split: sum.splits)
    qed
  qed
qed

lemma removePlayer_ok:
  assumes a: "deckWithinBounds e"
  shows "okResult (removePlayer i e)"
proof (cases "findPlayer i (state e)")
  case None
  then show ?thesis using a by (simp add: removePlayer_def)
next
  case (Some idx)
  show ?thesis
  proof (cases "handInProgress (state e)")
    case False
    have "length (take idx (players (state e)) @ drop (idx + 1) (players (state e)))
            \<le> length (players (state e))" by simp
    then have "deckWithinBounds (e\<lparr>state := (state e)\<lparr>players :=
                   take idx (players (state e)) @ drop (idx + 1) (players (state e))\<rparr>\<rparr>)"
      using a unfolding deckWithinBounds_def by (auto split: option.splits)
    then show ?thesis using Some False by (simp add: removePlayer_def)
  next
    case True
    define e1 where "e1 = e\<lparr>state := updPlayer idx (\<lambda>p. p\<lparr>hasFolded := True, isConnected := False\<rparr>)
                                   (state e)\<rparr>"
    have e1: "deckWithinBounds e1"
      using a by (auto simp: e1_def deckWithinBounds_def updPlayer_def split: option.splits)
    from handleAction_ok [OF e1, of i Fold None] e1
    show ?thesis using Some True
      by (auto simp: removePlayer_def Let_def e1_def [symmetric] okResult_def split: sum.splits)
  qed
qed

lemma actionTimeout_ok:
  assumes a: "deckWithinBounds e"
  shows "okResult (actionTimeout e)"
proof (cases "actionTimer e")
  case None
  then show ?thesis using a by (simp add: actionTimeout_def)
next
  case (Some playerId)
  have e1: "deckWithinBounds (e\<lparr>actionTimer := None\<rparr>)"
    using a by (auto simp: deckWithinBounds_def split: option.splits)
  from handleAction_ok [OF e1, of playerId Fold None] e1
  show ?thesis using Some
    by (auto simp: actionTimeout_def Let_def okResult_def split: sum.splits)
qed

lemma addPlayer_ok:
  assumes a: "deckWithinBounds e"
  shows "deckWithinBounds (snd (addPlayer i nm seat e))"
  using a
  by (auto simp: addPlayer_def Let_def deckWithinBounds_def sortBy_length split: option.splits)

lemma setPlayerConnected_ok:
  "deckWithinBounds e \<Longrightarrow> deckWithinBounds (setPlayerConnected i c e)"
  by (auto simp: setPlayerConnected_def deckWithinBounds_def updPlayer_def split: option.splits)

subsection \<open>Starting a hand\<close>

lemma shuffleLoop_length: "length (shuffleLoop rv k xs) = length xs"
  by (induction k arbitrary: xs) (auto simp: Let_def)

lemma shuffleDeck_length: "length (shuffleDeck rv xs) = length xs"
  unfolding shuffleDeck_def by (rule shuffleLoop_length)

lemma createDeck_length: "length createDeck = 52"
  by (simp add: createDeck_def SUITS_def RANKS_def)

lemma newHandDeck_shape: "length (cards (newHandDeck rv)) = 52 \<and> position (newHandDeck rv) = 0"
  by (simp add: newHandDeck_def shuffleDeck_length createDeck_length)

lemma getActivePlayers_length: "length (getActivePlayers s) \<le> length (players s)"
  unfolding getActivePlayers_def indicesWhere_def
  using length_filter_le [of _ "[0..<length (players s)]"] by simp


subsection \<open>Blinds and hole cards\<close>

lemma seatsKept_refl: "seatsKept s s"
  by (simp add: seatsKept_def list_all_iff)

lemma seatsKept_trans: "seatsKept s s1 \<Longrightarrow> seatsKept s1 s2 \<Longrightarrow> seatsKept s s2"
  by (auto simp: seatsKept_def list_all_iff)

lemma mem_indicesWhere:
  "j \<in> set (indicesWhere P s) \<longleftrightarrow> j < length (players s) \<and> P (players s ! j)"
  by (auto simp: indicesWhere_def)

lemma seatsKept_dealerSeated:
  assumes k: "seatsKept s s'" and d: "dealerSeated s"
  shows "dealerSeated s'"
proof -
  from d obtain i where i: "i \<in> set (getActivePlayers s)"
      "seatIndex (players s ! i) = dealerSeatIndex s"
    by (auto simp: dealerSeated_def list_ex_iff)
  then have il: "i < length (players s)" and act: "\<not> isSittingOut (players s ! i)"
      "0 \<le> chips (players s ! i)" "isConnected (players s ! i)"
    by (auto simp: getActivePlayers_def mem_indicesWhere)
  from k il have same: "seatIndex (players s' ! i) = seatIndex (players s ! i)"
      "isSittingOut (players s' ! i) = isSittingOut (players s ! i)"
      "isConnected (players s' ! i) = isConnected (players s ! i)"
      "0 \<le> chips (players s ! i) \<longrightarrow> 0 \<le> chips (players s' ! i)"
      "length (players s') = length (players s)" "dealerSeatIndex s' = dealerSeatIndex s"
    by (auto simp: seatsKept_def list_all_iff)
  then have "i \<in> set (getActivePlayers s')"
    using il act by (simp add: getActivePlayers_def mem_indicesWhere)
  moreover have "seatIndex (players s' ! i) = dealerSeatIndex s'" using same i(2) by simp
  ultimately show ?thesis unfolding dealerSeated_def list_ex_iff by (rule bexI [rotated])
qed

lemma postBlind_kept: "seatsKept s (postBlind i amt s)"
proof -
  have "0 \<le> chips (players (postBlind i amt s) ! j)"
    if "0 \<le> chips (players s ! j)" "j < length (players s)" for j
    using that by (cases "j = i") (auto simp: postBlind_def Let_def)
  moreover have "seatIndex (players (postBlind i amt s) ! j) = seatIndex (players s ! j)
      \<and> isSittingOut (players (postBlind i amt s) ! j) = isSittingOut (players s ! j)
      \<and> isConnected (players (postBlind i amt s) ! j) = isConnected (players s ! j)"
    if "j < length (players s)" for j
    using that by (cases "j = i") (auto simp: postBlind_def Let_def)
  moreover have "length (players (postBlind i amt s)) = length (players s)"
    "dealerSeatIndex (postBlind i amt s) = dealerSeatIndex s"
    "bettingRound (postBlind i amt s) = bettingRound s"
    by (simp_all add: postBlind_def Let_def)
  ultimately show ?thesis
    by (simp add: seatsKept_def list_all_iff)
qed

lemma postBlinds_ok:
  assumes "dealerSeated s"
  shows "\<exists>s'. postBlinds s = Inr s' \<and> seatsKept s s'"
proof (cases "length (getActivePlayers s) < 2")
  case True
  then show ?thesis by (simp add: postBlinds_def seatsKept_refl)
next
  case False
  define ap where "ap = getActivePlayers s"
  define dealerIdx where
    "dealerIdx = findIndex (\<lambda>i. seatIndex (players s ! i) = dealerSeatIndex s) ap"
  define n where "n = int (length ap)"
  define sbIdx where "sbIdx = (if length ap = 2 then dealerIdx else jsRem (dealerIdx + 1) n)"
  define bbIdx where
    "bbIdx = (if length ap = 2 then jsRem (dealerIdx + 1) n else jsRem (dealerIdx + 2) n)"
  have n: "0 < n" using False by (cases "getActivePlayers s") (auto simp: n_def ap_def)
  have lo: "0 \<le> dealerIdx"
    using assms unfolding dealerIdx_def ap_def dealerSeated_def by (rule findIndex_found)
  have hi: "dealerIdx < n" unfolding dealerIdx_def n_def using findIndex_bounds by blast
  have "0 \<le> sbIdx \<and> sbIdx < n"
    unfolding sbIdx_def using lo hi jsRem_bounds [OF _ n, of "dealerIdx + 1"] by auto
  then obtain sb where sb: "at ap sbIdx = Some sb" using at_Some [of sbIdx ap] by (auto simp: n_def)
  have "0 \<le> bbIdx \<and> bbIdx < n"
    unfolding bbIdx_def using lo jsRem_bounds [OF _ n, of "dealerIdx + 1"]
      jsRem_bounds [OF _ n, of "dealerIdx + 2"] by auto
  then obtain bb where bb: "at ap bbIdx = Some bb" using at_Some [of bbIdx ap] by (auto simp: n_def)
  have res: "postBlinds s
      = Inr ((postBlind bb (bigBlind s) (postBlind sb (smallBlind s) s))\<lparr>tableBet := bigBlind s\<rparr>)"
    using False sb bb
    by (simp only: postBlinds_def Let_def ap_def dealerIdx_def n_def sbIdx_def bbIdx_def)
       (simp add: ap_def)
  have "seatsKept s (postBlind bb (bigBlind s) (postBlind sb (smallBlind s) s))"
    using seatsKept_trans [OF postBlind_kept postBlind_kept] .
  then have "seatsKept s ((postBlind bb (bigBlind s) (postBlind sb (smallBlind s) s))
                            \<lparr>tableBet := bigBlind s\<rparr>)"
    by (simp add: seatsKept_def)
  with res show ?thesis by simp
qed

lemma getActivePlayers_dealer [simp]:
  "getActivePlayers (s\<lparr>dealerSeatIndex := x\<rparr>) = getActivePlayers s"
  by (simp add: getActivePlayers_def indicesWhere_def)

lemma advanceDealer_seated:
  assumes "getActivePlayers s \<noteq> []"
  shows "dealerSeated (advanceDealer s) \<and> players (advanceDealer s) = players s
         \<and> bettingRound (advanceDealer s) = bettingRound s"
proof -
  define ap where "ap = getActivePlayers s"
  have ne: "ap \<noteq> []" using assms by (simp add: ap_def)
  have seated: "dealerSeated (s\<lparr>dealerSeatIndex := seatIndex (players s ! (ap ! k))\<rparr>)"
    if "k < length ap" for k
  proof -
    have "ap ! k \<in> set (getActivePlayers s)" using that by (simp add: ap_def)
    then show ?thesis
      unfolding dealerSeated_def list_ex_iff by (intro bexI [of _ "ap ! k"]) simp_all
  qed
  show ?thesis
  proof (cases "dealerSeatIndex s = - 1")
    case True
    with ne seated [of 0] show ?thesis by (simp add: advanceDealer_def Let_def ap_def)
  next
    case False
    define currentIdx where
      "currentIdx = findIndex (\<lambda>i. seatIndex (players s ! i) = dealerSeatIndex s) ap"
    define nextIdx where "nextIdx = jsRem (currentIdx + 1) (int (length ap))"
    have "0 \<le> currentIdx + 1"
      unfolding currentIdx_def
      using findIndex_bounds [of "\<lambda>i. seatIndex (players s ! i) = dealerSeatIndex s" ap] by simp
    then have "0 \<le> nextIdx \<and> nextIdx < int (length ap)"
      unfolding nextIdx_def using ne by (intro jsRem_bounds) auto
    then have "nat nextIdx < length ap" by auto
    from seated [OF this] False ne show ?thesis
      by (simp add: advanceDealer_def Let_def ap_def currentIdx_def nextIdx_def)
  qed
qed

lemma dealHoleLoop_ok:
  assumes "deck e = Some d" "position d + 2 * length is \<le> length (cards d)"
  shows "\<exists>e' d'. dealHoleLoop is e = Inr e' \<and> deck e' = Some d' \<and> cards d' = cards d
           \<and> position d' \<le> position d + 2 * length is
           \<and> seatsKept (state e) (state e')"
  using assms
proof (induction "is" arbitrary: e d)
  case Nil
  then show ?case by (simp add: seatsKept_refl)
next
  case (Cons i rest)
  show ?case
  proof (cases "hasFolded (players (state e) ! i)")
    case True
    have "position d + 2 * length rest \<le> length (cards d)" using Cons.prems(2) by simp
    from Cons.IH [OF Cons.prems(1) this] True show ?thesis by auto
  next
    case False
    have "position d + 2 \<le> length (cards d)" using Cons.prems(2) by simp
    from dealMultiple_ok [OF this] obtain cs where
      dm: "dealMultiple 2 d = Inr (cs, d\<lparr>position := position d + 2\<rparr>)" ..
    define e1 where "e1 = emit (HoleCards (pid (players (state e) ! i)) cs)
                       (e\<lparr>state := updPlayer i (\<lambda>p. p\<lparr>holeCards := cs\<rparr>) (state e),
                          deck := Some (d\<lparr>position := position d + 2\<rparr>)\<rparr>)"
    have step: "dealHoleLoop (i # rest) e = dealHoleLoop rest e1"
      using False Cons.prems(1) dm by (simp add: e1_def)
    have d1: "deck e1 = Some (d\<lparr>position := position d + 2\<rparr>)" by (simp add: e1_def emit_def)
    have room: "position (d\<lparr>position := position d + 2\<rparr>) + 2 * length rest
                  \<le> length (cards (d\<lparr>position := position d + 2\<rparr>))"
      using Cons.prems(2) by simp
    have "seatIndex (players (state e1) ! j) = seatIndex (players (state e) ! j)
      \<and> isSittingOut (players (state e1) ! j) = isSittingOut (players (state e) ! j)
      \<and> isConnected (players (state e1) ! j) = isConnected (players (state e) ! j)
      \<and> chips (players (state e1) ! j) = chips (players (state e) ! j)"
      if "j < length (players (state e))" for j
      using that by (cases "j = i") (auto simp: e1_def emit_def updPlayer_def)
    moreover have "length (players (state e1)) = length (players (state e))"
      "dealerSeatIndex (state e1) = dealerSeatIndex (state e)"
      "bettingRound (state e1) = bettingRound (state e)"
      by (simp_all add: e1_def emit_def updPlayer_def)
    ultimately have kept: "seatsKept (state e) (state e1)"
      by (simp add: seatsKept_def list_all_iff)
    from Cons.IH [OF d1 room] obtain e' d' where
      "dealHoleLoop rest e1 = Inr e'" "deck e' = Some d'"
      "cards d' = cards (d\<lparr>position := position d + 2\<rparr>)"
      "position d' \<le> position (d\<lparr>position := position d + 2\<rparr>) + 2 * length rest"
      "seatsKept (state e1) (state e')" by blast
    with seatsKept_trans [OF kept] show ?thesis unfolding step by auto
  qed
qed

lemma startHand_ok:
  assumes a: "deckWithinBounds e"
  shows "okResult (startHand rv e)"
proof (cases "canStartHand (state e)")
  case False
  then show ?thesis using a by (simp add: startHand_def)
next
  case True
  define s where "s = state e"
  define s1 where "s1 = s\<lparr>players := filter (\<lambda>p. chips p > 0 \<and> isConnected p) (players s),
                   handInProgress := True, handNumber := handNumber s + 1,
                   communityCards := [], pot := 0, sidePots := [], tableBet := 0,
                   minRaise := bigBlind s, lastRaiseAmount := bigBlind s, winners := None,
                   bettingRound := Preflop\<rparr>"
  define reset :: "Player \<Rightarrow> Player" where "reset = (\<lambda>p. p\<lparr>holeCards := [], currentBet := 0, totalBetThisRound := 0,
                                  hasFolded := (\<not> isConnected p \<or> chips p = 0 \<or> isSittingOut p),
                                  isAllIn := False, lastAction := None\<rparr>)"
  define s2 where "s2 = s1\<lparr>players := map reset (players s1)\<rparr>"
  define s3 where "s3 = advanceDealer s2"
  have unfold: "startHand rv e =
      (case postBlinds s3 of
             Inl err \<Rightarrow> Inl err
           | Inr s4 \<Rightarrow>
               let e1 = emit (HandStart (dealerSeatIndex s4) (handNumber s4) (getPublicPlayers s4))
                          (e\<lparr>state := s4, deck := Some (newHandDeck rv)\<rparr>)
               in (case dealHoleCards e1 of
                     Inl err \<Rightarrow> Inl err
                   | Inr e2 \<Rightarrow>
                       startBettingRound (e2\<lparr>state := (state e2)\<lparr>bettingRound := Preflop\<rparr>\<rparr>)))"
    using True by (simp add: startHand_def Let_def s_def s1_def s2_def s3_def reset_def)
  have "filter (\<lambda>p. isConnected p \<and> chips p > 0 \<and> \<not> isSittingOut p) (players s) \<noteq> []"
    using True by (auto simp: canStartHand_def s_def)
  then obtain p where p: "p \<in> set (players s)" "isConnected p" "chips p > 0" "\<not> isSittingOut p"
    by (auto simp: filter_empty_conv)
  then have "reset p \<in> set (players s2)" by (simp add: s2_def s1_def)
  then obtain j where j: "j < length (players s2)" "players s2 ! j = reset p"
    by (auto simp: in_set_conv_nth)
  then have "j \<in> set (getActivePlayers s2)"
    using p by (simp add: getActivePlayers_def mem_indicesWhere reset_def)
  then have "getActivePlayers s2 \<noteq> []" by auto
  from advanceDealer_seated [OF this]
  have s3: "dealerSeated s3" "players s3 = players s2" "bettingRound s3 = bettingRound s2"
    by (simp_all add: s3_def)
  have "length (players s1) \<le> length (players s)" by (simp add: s1_def)
  then have len3: "length (players s3) \<le> 6"
    using a by (simp add: s3 s2_def s_def deckWithinBounds_def)
  have pre3: "bettingRound s3 = Preflop" by (simp add: s3 s2_def s1_def)
  from postBlinds_ok [OF s3(1)] obtain s4 where s4: "postBlinds s3 = Inr s4" "seatsKept s3 s4"
    by blast
  define e1 where "e1 = emit (HandStart (dealerSeatIndex s4) (handNumber s4) (getPublicPlayers s4))
                          (e\<lparr>state := s4, deck := Some (newHandDeck rv)\<rparr>)"
  have len4: "length (players s4) \<le> 6" using s4(2) len3 by (simp add: seatsKept_def)
  have dk: "deck e1 = Some (newHandDeck rv)" by (simp add: e1_def emit_def)
  have st: "state e1 = s4" by (simp add: e1_def emit_def)
  have "2 * length (getActivePlayers s4) \<le> 12"
    using getActivePlayers_length [of s4] len4 by simp
  then have room: "position (newHandDeck rv) + 2 * length (getActivePlayers (state e1))
                     \<le> length (cards (newHandDeck rv))"
    by (simp add: newHandDeck_shape st)
  from dealHoleLoop_ok [OF dk room] obtain e2 d2 where e2:
    "dealHoleCards e1 = Inr e2" "deck e2 = Some d2" "cards d2 = cards (newHandDeck rv)"
    "position d2 \<le> position (newHandDeck rv) + 2 * length (getActivePlayers (state e1))"
    "seatsKept (state e1) (state e2)"
    by (auto simp: dealHoleCards_def)
  let ?e3 = "e2\<lparr>state := (state e2)\<lparr>bettingRound := Preflop\<rparr>\<rparr>"
  have kept: "seatsKept s3 (state e2)" using seatsKept_trans [OF s4(2)] e2(5) st by simp
  then have "state ?e3 = state e2" using pre3 by (simp add: seatsKept_def)
  then have seated: "dealerSeated (state ?e3)"
    using seatsKept_dealerSeated [OF kept s3(1)] by simp
  have "position d2 \<le> 12"
    using e2(4) getActivePlayers_length [of s4] len4 by (simp add: newHandDeck_shape st)
  then have "deckWithinBounds ?e3"
    using e2 kept len3 by (simp add: deckWithinBounds_def newHandDeck_shape seatsKept_def)
  with seated have "okResult (startBettingRound ?e3)"
    using rounds_ok(2) [of ?e3] by simp
  then show ?thesis using s4(1) e2(1) by (simp add: unfold e1_def [symmetric] Let_def)
qed

lemma step_ok: "deckWithinBounds e \<Longrightarrow> okResult (step c e)"
proof (cases c)
  case (HandleAction i act amt)
  assume "deckWithinBounds e"
  from handleAction_ok [OF this, of i act amt] show ?thesis
    by (auto simp: HandleAction okResult_def split: sum.splits)
qed (simp_all add: addPlayer_ok removePlayer_ok setPlayerConnected_ok startHand_ok actionTimeout_ok)

lemma run_ok: "deckWithinBounds e \<Longrightarrow> okResult (run cs e)"
proof (induction cs arbitrary: e)
  case Nil
  then show ?case by simp
next
  case (Cons c cs)
  show ?case
  proof (cases "step c e")
    case (Inl err)
    with step_ok [OF Cons.prems, of c] show ?thesis by simp
  next
    case (Inr e1)
    with step_ok [OF Cons.prems, of c] have "deckWithinBounds e1" by simp
    from Cons.IH [OF this] Inr show ?thesis by simp
  qed
qed

lemma newGameEngine_ok: "deckWithinBounds (newGameEngine room host)"
  by (simp add: deckWithinBounds_def newGameEngine_def)


text \<open>
  C8 (amended). Whatever commands the host runs on a fresh engine (seating and removing
  players, starting hands, actions, timeouts), no call ends in the deck-exhausted
  branch of \<open>deal\<close>, and the deck of a hand has 52 cards of which at most 20 have been
  drawn: two hole cards for each of at most six players, three burns and five community
  cards.
\<close>

text \<open>
  C8 (amended). Whatever commands the host runs on a fresh engine (seating and removing
  players, starting hands, actions, timeouts), no call throws: in particular no
  \<open>deal\<close> takes its deck-exhausted branch. The deck of a hand has 52 cards, of which at
  most 20 have been drawn: two hole cards for each of at most six players, three burns
  and five community cards.
\<close>

theorem deck_never_exhausted:
  "\<exists>e. run cs (newGameEngine room host) = Inr e
       \<and> (\<forall>d. deck e = Some d \<longrightarrow> position d \<le> 20 \<and> length (cards d) = 52)"
proof -
  have ok: "okResult (run cs (newGameEngine room host))"
    by (rule run_ok [OF newGameEngine_ok])
  then obtain e where e: "run cs (newGameEngine room host) = Inr e" "deckWithinBounds e"
    by (cases "run cs (newGameEngine room host)") auto
  have drawn: "drawnBy r \<le> 8" for r by (cases r) auto
  have "position d \<le> 20 \<and> length (cards d) = 52" if "deck e = Some d" for d
    using e(2) that drawn [of "bettingRound (state e)"] by (simp add: deckWithinBounds_def)
  with e(1) show ?thesis by blast
qed

theorem deck_never_exhausted_witness:
  "\<exists>e d. run sixHanded (newGameEngine ''room'' ''P0'') = Inr e \<and> deck e = Some d
         \<and> position d \<le> 20 \<and> length (cards d) = 52"
proof -
  have "map_sum id (\<lambda>e. map_option (\<lambda>d. ()) (deck e))
          (run sixHanded (newGameEngine ''room'' ''P0'')) = Inr (Some ())"
    by code_simp
  then obtain e d where "run sixHanded (newGameEngine ''room'' ''P0'') = Inr e" "deck e = Some d"
    by (cases "run sixHanded (newGameEngine ''room'' ''P0'')") auto
  with deck_never_exhausted [of sixHanded "''room''" "''P0''"] show ?thesis by auto
qed

text \<open>
  C8 as stated fails on its count: the six-handed hand \<open>sixHanded\<close> draws 20 cards, not
  at most 19.
\<close>

theorem twenty_cards_drawn:
  "map_sum id (\<lambda>e. (length (players (state e)), map_option position (deck e)))
     (run sixHanded (newGameEngine ''room'' ''P0'')) = Inr (6, Some 20)"
  by code_simp


section \<open>Raises\<close>

text \<open>
  Ending a hand touches neither the betting round nor the minimum raise; only the start
  of a later betting round resets them.
\<close>

lemma potLoop_state:
  "potLoop nf k pots (s, r, h) = Inr (s', r', h') \<Longrightarrow> \<exists>ps. s' = s\<lparr>players := ps\<rparr>"
proof (induction pots arbitrary: k s r h)
  case Nil
  then have "s' = s\<lparr>players := players s\<rparr>" by simp
  then show ?case ..
next
  case (Cons p rest)
  let ?el = "filter (\<lambda>i. pid (players s ! i) \<in> set (eligiblePlayerIds p)) nf"
  obtain unsorted where ev: "evaluateEligible s ?el = Inr unsorted"
    using evaluateEligible_ok [of s ?el] ..
  show ?case
  proof (cases "length unsorted = 0")
    case True
    with ev Cons.prems have "potLoop nf (k + 1) rest (s, r, h) = Inr (s', r', h')"
      by (simp add: Let_def)
    then show ?thesis by (rule Cons.IH)
  next
    case False
    define evaluations where "evaluations = sortBy (\<lambda>a b. compareHands (snd b) (snd a)) unsorted"
    define tied where
      "tied = filter (\<lambda>ev. compareHands (snd ev) (snd (evaluations ! 0)) = 0) evaluations"
    define share where "share = amount p div int (length tied)"
    define rem where "rem = amount p - share * int (length tied)"
    obtain ps hrs where pay: "payWinners share rem k 0 tied (players s, h) = (ps, hrs)"
      by (cases "payWinners share rem k 0 tied (players s, h)") auto
    have "potLoop nf k (p # rest) (s, r, h)
          = potLoop nf (k + 1) rest (s\<lparr>players := ps\<rparr>, addResults ps hrs evaluations r, hrs)"
      using ev False pay
      by (simp add: Let_def evaluations_def [symmetric] tied_def [symmetric]
            share_def [symmetric] rem_def [symmetric])
    with Cons.prems
    have "potLoop nf (k + 1) rest (s\<lparr>players := ps\<rparr>, addResults ps hrs evaluations r, hrs)
          = Inr (s', r', h')" by simp
    from Cons.IH [OF this] obtain ps' where "s' = s\<lparr>players := ps, players := ps'\<rparr>" ..
    then have "s' = s\<lparr>players := ps'\<rparr>" by simp
    then show ?thesis ..
  qed
qed

lemma endHand_raise:
  "bettingRound (state (endHand e)) = bettingRound (state e)
   \<and> minRaise (state (endHand e)) = minRaise (state e)
   \<and> lastRaiseAmount (state (endHand e)) = lastRaiseAmount (state e)"
  by (simp add: endHand_def emit_def clearActionTimer_def Let_def)

lemma endHandFold_raise:
  "bettingRound (state (endHandFold w e)) = bettingRound (state e)
   \<and> minRaise (state (endHandFold w e)) = minRaise (state e)
   \<and> lastRaiseAmount (state (endHandFold w e)) = lastRaiseAmount (state e)"
  by (cases w) (simp_all add: endHandFold_def endHand_raise emit_def updPlayer_def Let_def)

lemma showdown_raise:
  assumes "showdown e = Inr e'"
  shows "bettingRound (state e') = bettingRound (state e)
   \<and> minRaise (state e') = minRaise (state e)
   \<and> lastRaiseAmount (state e') = lastRaiseAmount (state e)"
proof -
  let ?nf = "indicesWhere (\<lambda>p. \<not> hasFolded p) (state e)"
  obtain s1 results hrs where res:
    "potLoop ?nf 0 (calculatePots (state e)) (state e, [], []) = Inr (s1, results, hrs)"
    using potLoop_ok [of ?nf 0 "calculatePots (state e)" "state e" "[]" "[]"] by blast
  from potLoop_state [OF res] obtain ps where s1: "s1 = (state e)\<lparr>players := ps\<rparr>" ..
  have "e' = endHand (emit (Showdown results) (e\<lparr>state := s1\<lparr>winners := Some hrs\<rparr>\<rparr>))"
    using assms res by (simp add: showdown_def Let_def)
  then show ?thesis using s1 by (simp add: endHand_raise emit_def)
qed


lemma rounds_raise:
  "\<forall>e'. advanceToNextRound e1 = Inr e' \<longrightarrow>
      laterRound (state e1) (state e') \<or> raiseKept (state e1) (state e')"
  "\<forall>e'. startBettingRound e2 = Inr e' \<longrightarrow>
      roundsLeft (bettingRound (state e')) \<le> roundsLeft (bettingRound (state e2))"
  "\<forall>e'. promptAction e3 = Inr e' \<longrightarrow>
      laterRound (state e3) (state e') \<or> raiseKept (state e3) (state e')"
proof (induction e1 and e2 and e3 rule: advanceToNextRound_startBettingRound_promptAction.induct)
  case (1 e)
  show ?case
  proof (intro allI impI)
    fix e'
    assume r: "advanceToNextRound e = Inr e'"
    define notFolded where "notFolded = indicesWhere (\<lambda>p. \<not> hasFolded p) (state e)"
    define canAct where "canAct = filter (\<lambda>i. \<not> isAllIn (players (state e) ! i)) notFolded"
    show "laterRound (state e) (state e') \<or> raiseKept (state e) (state e')"
    proof (cases "length notFolded \<le> 1")
      case True
      with r have "e' = endHandFold (at notFolded 0) e"
        by (simp add: advanceToNextRound.simps [of e] notFolded_def [symmetric])
      then show ?thesis by (simp add: raiseKept_def endHandFold_raise)
    next
      case False
      show ?thesis
      proof (cases "getNextBettingRound (state e)")
        case None
        with r False have "showdown e = Inr e'"
          by (simp add: advanceToNextRound.simps [of e] notFolded_def [symmetric] Let_def)
        from showdown_raise [OF this] show ?thesis by (simp add: raiseKept_def)
      next
        case (Some nextRound)
        let ?er = "e\<lparr>state := (state e)\<lparr>bettingRound := nextRound\<rparr>\<rparr>"
        have lt: "roundsLeft nextRound < roundsLeft (bettingRound (state e))"
          by (rule getNextBettingRound_roundsLeft [OF Some])
        from r False Some obtain b where b: "dealCommunityCards nextRound ?er = Inr b"
          and rest: "(if length canAct \<le> 1 then advanceToNextRound b else startBettingRound b) = Inr e'"
          by (auto simp: advanceToNextRound.simps [of e] notFolded_def [symmetric]
                canAct_def [symmetric] Let_def split: sum.splits)
        have br: "bettingRound (state b) = nextRound"
          using dealCommunityCards_bettingRound [OF b] by simp
        have "roundsLeft (bettingRound (state e')) \<le> roundsLeft (bettingRound (state b))"
        proof (cases "length canAct \<le> 1")
          case True
          with rest have "advanceToNextRound b = Inr e'" by simp
          with "1.IH"(1) [OF notFolded_def False canAct_def Some b True]
          have "laterRound (state b) (state e') \<or> raiseKept (state b) (state e')" by simp
          then show ?thesis by (auto simp: laterRound_def raiseKept_def)
        next
          case F: False
          with rest have "startBettingRound b = Inr e'" by simp
          with "1.IH"(2) [OF notFolded_def False canAct_def Some b F] show ?thesis by simp
        qed
        with br lt show ?thesis by (simp add: laterRound_def)
      qed
    qed
  qed
next
  case (2 e)
  show ?case
  proof (intro allI impI)
    fix e'
    assume r: "startBettingRound e = Inr e'"
    define x where "x = (if bettingRound (state e) \<noteq> Preflop then resetBets e else e)"
    define canAct where "canAct = getPlayersWhoCanAct (state x)"
    define notFolded where "notFolded = filter (\<lambda>p. \<not> hasFolded p) (players (state x))"
    have bx: "bettingRound (state x) = bettingRound (state e)"
      by (simp add: x_def resetBets_bettingRound)
    show "roundsLeft (bettingRound (state e')) \<le> roundsLeft (bettingRound (state e))"
    proof (cases "length notFolded \<le> 1 \<or> length canAct = 0")
      case True
      with r have "advanceToNextRound x = Inr e'"
        by (simp add: startBettingRound.simps [of e] x_def [symmetric] canAct_def [symmetric]
              notFolded_def [symmetric] Let_def)
      with "2.IH"(1) [OF x_def canAct_def notFolded_def True]
      have "laterRound (state x) (state e') \<or> raiseKept (state x) (state e')" by simp
      then show ?thesis using bx by (auto simp: laterRound_def raiseKept_def)
    next
      case False
      with r obtain s2 where s2: "findFirstActor (state x) = Inr s2"
        and p: "promptAction (x\<lparr>state := s2\<rparr>) = Inr e'"
        by (auto simp: startBettingRound.simps [of e] x_def [symmetric] canAct_def [symmetric]
              notFolded_def [symmetric] Let_def split: sum.splits)
      from "2.IH"(2) [OF x_def canAct_def notFolded_def False s2] p
      have "laterRound s2 (state e') \<or> raiseKept s2 (state e')" by simp
      then show ?thesis using bx findFirstActor_bettingRound [OF s2]
        by (auto simp: laterRound_def raiseKept_def)
    qed
  qed
next
  case (3 e)
  show ?case
  proof (intro allI impI)
    fix e'
    assume r: "promptAction e = Inr e'"
    show "laterRound (state e) (state e') \<or> raiseKept (state e) (state e')"
    proof (cases "getActivePlayer (state e)")
      case None
      with r have "advanceToNextRound e = Inr e'" by (simp add: promptAction.simps [of e])
      with "3.IH" [OF None] show ?thesis by simp
    next
      case (Some i)
      with r show ?thesis
        by (auto simp: promptAction.simps [of e] Let_def emit_def clearActionTimer_def
              raiseKept_def)
    qed
  qed
qed

lemma advanceAction_raise:
  assumes "advanceAction e = Inr e'"
  shows "laterRound (state e) (state e') \<or> raiseKept (state e) (state e')"
proof (cases "findNextActor (state e)")
  case None
  with assms rounds_raise(1) [of e] show ?thesis by (simp add: advanceAction_def)
next
  case (Some nextPlayer)
  with assms
    rounds_raise(3) [of "e\<lparr>state := (state e)\<lparr>activePlayerIndex := int nextPlayer\<rparr>\<rparr>"]
  show ?thesis by (simp add: advanceAction_def laterRound_def raiseKept_def)
qed



text \<open>
  C4. Raise acceptance and min-raise maintenance. For the player on action, with
  \<open>raise_over = (player.currentBet + raise_amount) - currentBet\<close>: \<open>handleAction\<close>
  returns true on a raise or all-in iff \<open>raise_over \<ge> minRaise\<close> or the raise amount is
  the player's whole stack, and false otherwise, leaving the game state as it was. After
  an accepted raise, unless the call has moved the hand on to a later betting round
  (whose start resets the minimum raise), the engine holds \<open>minRaise\<close> and
  \<open>lastRaiseAmount\<close> equal to \<open>raise_over\<close> for a full raise, and both as they were for
  a short all-in. (Stacks are non-negative and \<open>minRaise\<close> is positive in every hand; the
  deck bounds hold in every engine that the commands reach.)
\<close>

theorem raise_acceptance_and_min_raise:
  assumes active: "isOnAction playerId (state e)"
    and found: "findPlayer playerId (state e) = Some i"
    and act: "act = Raise \<or> act = AllIn"
    and chips: "0 \<le> chips (players (state e) ! i)"
    and mr: "0 < minRaise (state e)"
    and bounds: "deckWithinBounds e"
  shows "let s = state e; p = players s ! i;
             raise_amount = raiseAmountOf act amt p;
             raise_over = currentBet p + raise_amount - tableBet s;
             accepted = (raise_over \<ge> minRaise s \<or> raise_amount = chips p)
         in \<exists>e'. handleAction playerId act amt e = Inr (accepted, e')
              \<and> (\<not> accepted \<longrightarrow> state e' = state e)
              \<and> (accepted \<and> bettingRound (state e') = bettingRound s \<longrightarrow>
                   (if raise_over \<ge> minRaise s
                    then minRaise (state e') = raise_over
                         \<and> lastRaiseAmount (state e') = raise_over
                    else minRaise (state e') = minRaise s
                         \<and> lastRaiseAmount (state e') = lastRaiseAmount s))"
proof -
  define s where "s = state e"
  define p where "p = players s ! i"
  define raise_amount where "raise_amount = raiseAmountOf act amt p"
  define raise_over where "raise_over = currentBet p + raise_amount - tableBet s"
  define accepted where "accepted = (raise_over \<ge> minRaise s \<or> raise_amount = chips p)"
  have le: "raise_amount \<le> chips p"
    using chips unfolding raise_amount_def raiseAmountOf_def p_def s_def
    by (auto split: option.splits)
  have acc: "accepted \<longleftrightarrow> raiseAction i act amt s \<noteq> None"
    using le unfolding accepted_def raise_over_def raise_amount_def p_def raiseAction_def Let_def
    by auto
  have app: "applyAction i act amt (state (clearActionTimer e)) = raiseAction i act amt s"
    using act by (auto simp: applyAction_def clearActionTimer_def s_def Let_def)
  have upd: "\<forall>s'. raiseAction i act amt s = Some s' \<longrightarrow>
                bettingRound s' = bettingRound s \<and>
                (if raise_over \<ge> minRaise s
                 then minRaise s' = raise_over \<and> lastRaiseAmount s' = raise_over
                 else minRaise s' = minRaise s \<and> lastRaiseAmount s' = lastRaiseAmount s)"
    using mr unfolding raise_over_def raise_amount_def p_def raiseAction_def Let_def s_def
    by (auto split: if_splits)
  have goal: "\<exists>e'. handleAction playerId act amt e = Inr (accepted, e')
              \<and> (\<not> accepted \<longrightarrow> state e' = state e)
              \<and> (accepted \<and> bettingRound (state e') = bettingRound s \<longrightarrow>
                   (if raise_over \<ge> minRaise s
                    then minRaise (state e') = raise_over
                         \<and> lastRaiseAmount (state e') = raise_over
                    else minRaise (state e') = minRaise s
                         \<and> lastRaiseAmount (state e') = lastRaiseAmount s))"
  proof (cases "raiseAction i act amt s")
    case None
    then have "\<not> accepted" using acc by simp
    moreover have "handleAction playerId act amt e = Inr (False, clearActionTimer e)"
      using active found app None
      by (auto simp: handleAction_def isOnAction_def Let_def split: option.splits)
    moreover have "state (clearActionTimer e) = state e" by (simp add: clearActionTimer_def)
    ultimately show ?thesis by simp
  next
    case (Some s1)
    then have a: accepted using acc by simp
    define e1 where "e1 = emit (PlayerActed (pid (players s1 ! i)) (lastAction (players s1 ! i))
                                     (currentBet (players s1 ! i)) (pot s1) (chips (players s1 ! i)))
                               ((clearActionTimer e)\<lparr>state := s1\<rparr>)"
    have st: "state e1 = s1" by (simp add: e1_def emit_def)
    have res: "handleAction playerId act amt e =
         (if length (indicesWhere (\<lambda>p. \<not> hasFolded p) s1) \<le> 1
          then Inr (True, endHandFold (at (indicesWhere (\<lambda>p. \<not> hasFolded p) s1) 0) e1)
          else (case advanceAction e1 of Inl err \<Rightarrow> Inl err | Inr e2 \<Rightarrow> Inr (True, e2)))"
      using active found app Some
      by (auto simp: handleAction_def isOnAction_def Let_def e1_def split: option.splits)
    have "\<exists>e'. handleAction playerId act amt e = Inr (True, e')
            \<and> (laterRound s1 (state e') \<or> raiseKept s1 (state e'))"
    proof (cases "length (indicesWhere (\<lambda>p. \<not> hasFolded p) s1) \<le> 1")
      case True
      then show ?thesis using res st endHandFold_raise [of _ e1]
        by (simp add: raiseKept_def)
    next
      case False
      from handleAction_ok [OF bounds, of playerId act amt] res False
      obtain e2 where e2: "advanceAction e1 = Inr e2"
        by (auto split: sum.splits)
      from advanceAction_raise [OF e2] res False e2 st show ?thesis by simp
    qed
    then obtain e' where e': "handleAction playerId act amt e = Inr (True, e')"
      "laterRound s1 (state e') \<or> raiseKept s1 (state e')" by blast
    have "minRaise (state e') = minRaise s1 \<and> lastRaiseAmount (state e') = lastRaiseAmount s1"
      if "bettingRound (state e') = bettingRound s"
      using that e'(2) upd Some by (auto simp: laterRound_def raiseKept_def)
    with upd Some e'(1) a show ?thesis by auto
  qed
  show ?thesis
    unfolding Let_def
    using goal
    unfolding accepted_def raise_over_def raise_amount_def p_def s_def .
qed

theorem raise_acceptance_and_min_raise_witness:
  "isOnAction ''A'' (state openedHand) \<and> findPlayer ''A'' (state openedHand) = Some 0
   \<and> 0 \<le> chips (players (state openedHand) ! 0) \<and> minRaise (state openedHand) = 2
   \<and> deckWithinBounds openedHand
   \<and> raiseAmountOf Raise (Some 150) (players (state openedHand) ! 0) = 150
   \<and> currentBet (players (state openedHand) ! 0) + 150 - tableBet (state openedHand) = 148
   \<and> (\<exists>e'. handleAction ''A'' Raise (Some 150) openedHand = Inr (True, e')
         \<and> e' = raisedHand
         \<and> bettingRound (state e') = Preflop
         \<and> minRaise (state e') = 148 \<and> lastRaiseAmount (state e') = 148)
   \<and> isOnAction ''B'' (state raisedHand) \<and> findPlayer ''B'' (state raisedHand) = Some 1
   \<and> 0 \<le> chips (players (state raisedHand) ! 1) \<and> deckWithinBounds raisedHand
   \<and> raiseAmountOf AllIn None (players (state raisedHand) ! 1) = 199
   \<and> currentBet (players (state raisedHand) ! 1) + 199 - tableBet (state raisedHand) = 50
   \<and> (\<exists>e'. handleAction ''B'' AllIn None raisedHand = Inr (True, e')
         \<and> bettingRound (state e') = Preflop
         \<and> minRaise (state e') = 148 \<and> lastRaiseAmount (state e') = 148)"
proof -
  have a1: "isOnAction ''A'' (state openedHand)" by code_simp
  have a2: "findPlayer ''A'' (state openedHand) = Some 0" by code_simp
  have a3: "0 \<le> chips (players (state openedHand) ! 0)" by code_simp
  have a4: "minRaise (state openedHand) = 2" by code_simp
  have a5: "deckWithinBounds openedHand" by code_simp
  have a6: "raiseAmountOf Raise (Some 150) (players (state openedHand) ! 0) = 150" by code_simp
  have a7: "currentBet (players (state openedHand) ! 0) = 0" "tableBet (state openedHand) = 2"
      "chips (players (state openedHand) ! 0) = 200" "bettingRound (state openedHand) = Preflop"
    by code_simp+
  have a8: "map_sum id snd (handleAction ''A'' Raise (Some 150) openedHand) = Inr raisedHand"
    by code_simp
  have b1: "isOnAction ''B'' (state raisedHand)" by code_simp
  have b2: "findPlayer ''B'' (state raisedHand) = Some 1" by code_simp
  have b3: "0 \<le> chips (players (state raisedHand) ! 1)" by code_simp
  have b5: "deckWithinBounds raisedHand" by code_simp
  have b6: "raiseAmountOf AllIn None (players (state raisedHand) ! 1) = 199" by code_simp
  have b7: "currentBet (players (state raisedHand) ! 1) = 1" "tableBet (state raisedHand) = 150"
      "chips (players (state raisedHand) ! 1) = 199" "bettingRound (state raisedHand) = Preflop"
    by code_simp+
  have b8: "map_sum id (\<lambda>(accepted, e'). bettingRound (state e'))
             (handleAction ''B'' AllIn None raisedHand) = Inr Preflop" by code_simp
  from raise_acceptance_and_min_raise [OF a1 a2 _ a3 _ a5, of Raise "Some 150"] a4 a6 a7
  obtain e' where e': "handleAction ''A'' Raise (Some 150) openedHand = Inr (True, e')"
    "bettingRound (state e') = Preflop \<longrightarrow>
       minRaise (state e') = 148 \<and> lastRaiseAmount (state e') = 148"
    by (auto simp: Let_def)
  from e'(1) a8 have r: "e' = raisedHand" by simp
  with b7 e'(2) have mr: "minRaise (state raisedHand) = 148" "lastRaiseAmount (state raisedHand) = 148"
    by simp_all
  from e'(1) r b7 mr
  have first: "\<exists>e'. handleAction ''A'' Raise (Some 150) openedHand = Inr (True, e')
         \<and> e' = raisedHand
         \<and> bettingRound (state e') = Preflop
         \<and> minRaise (state e') = 148 \<and> lastRaiseAmount (state e') = 148" by simp
  from raise_acceptance_and_min_raise [OF b1 b2 _ b3 _ b5, of AllIn None] mr b6 b7
  obtain e'' where e'': "handleAction ''B'' AllIn None raisedHand = Inr (True, e'')"
    "bettingRound (state e'') = Preflop \<longrightarrow>
       minRaise (state e'') = 148 \<and> lastRaiseAmount (state e'') = 148"
    by (auto simp: Let_def)
  from e''(1) b8 have "bettingRound (state e'') = Preflop" by simp
  with e'' have "handleAction ''B'' AllIn None raisedHand = Inr (True, e'')
         \<and> bettingRound (state e'') = Preflop
         \<and> minRaise (state e'') = 148 \<and> lastRaiseAmount (state e'') = 148" by simp
  then have second: "\<exists>e'. handleAction ''B'' AllIn None raisedHand = Inr (True, e')
         \<and> bettingRound (state e') = Preflop
         \<and> minRaise (state e') = 148 \<and> lastRaiseAmount (state e') = 148" ..
  have a9: "currentBet (players (state openedHand) ! 0) + 150 - tableBet (state openedHand) = 148"
    using a7 by simp
  have b9: "currentBet (players (state raisedHand) ! 1) + 199 - tableBet (state raisedHand) = 50"
    using b7 by simp
  show ?thesis
    by (intro conjI a1 a2 a3 a4 a5 a6 a9 first b1 b2 b3 b5 b6 b9 second)
qed

end
